theory Spec2Isabelle
  imports Main
begin

section \<open>The accounts data model\<close>

text \<open>
  The module \<^verbatim>\<open>accounts/models.py\<close> declares two tables, \<^verbatim>\<open>User\<close> and
  \<^verbatim>\<open>UserProfile\<close>, and a manager with the two factory methods \<^verbatim>\<open>create_user\<close> and
  \<^verbatim>\<open>create_superuser\<close>. The object-relational layer underneath is modelled by an explicit
  store (the rows of both tables and the log of row writes), and every exception is a
  value of the type \<open>error\<close>.
\<close>

datatype error =
    ValueError string
  | IntegrityError
  | AttributeError
  | DoesNotExist
  | TypeError

type_synonym timestamp = nat

text \<open>
  The columns of \<^verbatim>\<open>User\<close>: the primary key, \<^verbatim>\<open>password\<close> and \<^verbatim>\<open>is_superuser\<close> come
  from the base classes, the others are declared in the class body. The two columns with
  \<^verbatim>\<open>unique=True\<close> are optional values here, so that an instance holding \<^verbatim>\<open>None\<close> can be
  written down and is refused by the NOT NULL constraint of \<open>save\<close>. A timestamp is
  \<^verbatim>\<open>None\<close> until the first save.
\<close>

record User =
  pk :: "nat option"
  password :: string
  is_superuser :: bool
  first_name :: string
  last_name :: string
  username :: "string option"
  email :: "string option"
  phone_number :: string
  role :: "nat option"
  date_joined :: "timestamp option"
  last_login :: "timestamp option"
  modified_date :: "timestamp option"
  created_date :: "timestamp option"
  is_admin :: bool
  is_active :: bool
  is_superadmin :: bool
  is_staff :: bool

definition RESTAURANT :: nat where
  "RESTAURANT = 1"

definition CUSTOMER :: nat where
  "CUSTOMER = 2"

text \<open>
  The columns of \<^verbatim>\<open>UserProfile\<close>. The field \<open>user\<close> is the one-to-one reference to the
  owner, stored as the owner's primary key; it is declared \<^verbatim>\<open>null=True\<close>.
\<close>

record UserProfile =
  profile_pk :: "nat option"
  user :: "nat option"
  profile_picture :: "string option"
  cover_photo :: "string option"
  address_line1 :: "string option"
  address_line2 :: "string option"
  country :: "string option"
  state :: "string option"
  city :: "string option"
  pin_code :: "string option"
  latitude :: "string option"
  longitude :: "string option"
  created_at :: "timestamp option"
  modified_at :: "timestamp option"

datatype row_write =
    InsertUser nat
  | UpdateUser nat
  | DeleteUser nat
  | InsertProfile nat
  | UpdateProfile nat
  | DeleteProfile nat

record store =
  users :: "User list"
  profiles :: "UserProfile list"
  writes :: "row_write list"

definition empty_store :: store where
  "empty_store = \<lparr>users = [], profiles = [], writes = []\<rparr>"

text \<open>
  The two routines that the manager and the base class take from the framework are
  parameters of the model: \<open>normalize_email\<close> (called on the argument as it is, so also on
  \<^verbatim>\<open>None\<close>) and \<open>make_password\<close>, the hashing transform behind \<^verbatim>\<open>set_password\<close>.
\<close>

record auth_env =
  normalize_email :: "string option \<Rightarrow> string"
  make_password :: "string option \<Rightarrow> string"

section \<open>Saving and deleting rows\<close>

text \<open>Python's \<^verbatim>\<open>not x\<close> on an optional string: true on \<^verbatim>\<open>None\<close> and on the empty string.\<close>

definition py_not :: "string option \<Rightarrow> bool" where
  "py_not x = (case x of None \<Rightarrow> True | Some v \<Rightarrow> v = [])"

definition fresh_pk :: "nat option list \<Rightarrow> nat" where
  "fresh_pk ks = Suc (fold (\<lambda>k m. case k of None \<Rightarrow> m | Some n \<Rightarrow> max n m) ks 0)"

definition get_user :: "store \<Rightarrow> nat \<Rightarrow> User option" where
  "get_user s k = find (\<lambda>r. pk r = Some k) (users s)"

text \<open>
  \<^verbatim>\<open>unique=True\<close> on \<^verbatim>\<open>username\<close> and on \<^verbatim>\<open>email\<close>: a write is refused when another row
  holds the same value in one of the two columns.
\<close>

definition unique_violation :: "User \<Rightarrow> User list \<Rightarrow> bool" where
  "unique_violation u rows =
     list_ex (\<lambda>r. pk r \<noteq> pk u \<and> (username r = username u \<or> email r = email u)) rows"

definition insert_user :: "timestamp \<Rightarrow> nat \<Rightarrow> User \<Rightarrow> store \<Rightarrow> (error + User) \<times> store" where
  "insert_user now k u s =
     (let u' = u\<lparr>pk := Some k, date_joined := Some now, last_login := Some now,
                 modified_date := Some now, created_date := Some now\<rparr>
      in (Inr u', s\<lparr>users := users s @ [u'], writes := writes s @ [InsertUser k]\<rparr>))"

text \<open>
  An update writes the three \<^verbatim>\<open>auto_now_add\<close> columns from the instance. They are NOT NULL,
  so an instance that carries \<^verbatim>\<open>None\<close> in one of them is refused.
\<close>

definition update_user :: "timestamp \<Rightarrow> nat \<Rightarrow> User \<Rightarrow> store \<Rightarrow> (error + User) \<times> store" where
  "update_user now k u s =
     (if date_joined u = None \<or> last_login u = None \<or> modified_date u = None
      then (Inl IntegrityError, s)
      else let u' = u\<lparr>created_date := Some now\<rparr>
           in (Inr u', s\<lparr>users := map (\<lambda>r. if pk r = Some k then u' else r) (users s),
                         writes := writes s @ [UpdateUser k]\<rparr>))"

text \<open>
  \<^verbatim>\<open>user.save()\<close>: an instance whose key names a stored row updates that row, any other
  instance is inserted. The three \<^verbatim>\<open>auto_now_add\<close> fields are set by an insert only, the
  \<^verbatim>\<open>auto_now\<close> field \<^verbatim>\<open>created_date\<close> by every save. A refused write leaves the store as
  it was. The \<^verbatim>\<open>max_length\<close> limits are checked by forms and not by \<open>save\<close>; whether the
  database enforces them depends on the backend, and the model leaves them out.
\<close>

definition user_save :: "timestamp \<Rightarrow> User \<Rightarrow> store \<Rightarrow> (error + User) \<times> store" where
  "user_save now u s =
     (if username u = None \<or> email u = None then (Inl IntegrityError, s)
      else if unique_violation u (users s) then (Inl IntegrityError, s)
      else case pk u of
             Some k \<Rightarrow>
               if Some k \<in> set (map pk (users s)) then update_user now k u s
               else insert_user now k u s
           | None \<Rightarrow> insert_user now (fresh_pk (map pk (users s))) u s)"

definition profile_violation :: "UserProfile \<Rightarrow> store \<Rightarrow> bool" where
  "profile_violation p s =
     (case user p of
        None \<Rightarrow> False
      | Some k \<Rightarrow>
          Some k \<notin> set (map pk (users s)) \<or>
          list_ex (\<lambda>r. profile_pk r \<noteq> profile_pk p \<and> user r = Some k) (profiles s))"

text \<open>
  The two image columns hold the name of the file, and the empty string for an instance
  without file: the row that a save writes is the instance with these two columns
  filled in, while the instance itself is returned as it is.
\<close>

definition stored_file :: "string option \<Rightarrow> string option" where
  "stored_file f = Some (case f of None \<Rightarrow> [] | Some name \<Rightarrow> name)"

definition profile_row :: "UserProfile \<Rightarrow> UserProfile" where
  "profile_row p =
     p\<lparr>profile_picture := stored_file (profile_picture p),
       cover_photo := stored_file (cover_photo p)\<rparr>"

definition insert_profile ::
  "timestamp \<Rightarrow> nat \<Rightarrow> UserProfile \<Rightarrow> store \<Rightarrow> (error + UserProfile) \<times> store" where
  "insert_profile now k p s =
     (let p' = p\<lparr>profile_pk := Some k, created_at := Some now, modified_at := Some now\<rparr>
      in (Inr p', s\<lparr>profiles := profiles s @ [profile_row p'],
                    writes := writes s @ [InsertProfile k]\<rparr>))"

text \<open>
  An update writes the \<^verbatim>\<open>auto_now_add\<close> column \<^verbatim>\<open>created_at\<close> from the instance; it is
  NOT NULL, so an instance that carries \<^verbatim>\<open>None\<close> there is refused.
\<close>

definition update_profile ::
  "timestamp \<Rightarrow> nat \<Rightarrow> UserProfile \<Rightarrow> store \<Rightarrow> (error + UserProfile) \<times> store" where
  "update_profile now k p s =
     (if created_at p = None then (Inl IntegrityError, s)
      else let p' = p\<lparr>modified_at := Some now\<rparr>
           in (Inr p',
               s\<lparr>profiles :=
                    map (\<lambda>r. if profile_pk r = Some k then profile_row p' else r) (profiles s),
                 writes := writes s @ [UpdateProfile k]\<rparr>))"

text \<open>
  \<^verbatim>\<open>profile.save()\<close>: the one-to-one field is a foreign key with a uniqueness constraint,
  so an owner must be a stored user and may own one profile only; a profile without
  owner never violates the two. As for users, the \<^verbatim>\<open>max_length\<close> limits are left out.
\<close>

definition profile_save ::
  "timestamp \<Rightarrow> UserProfile \<Rightarrow> store \<Rightarrow> (error + UserProfile) \<times> store" where
  "profile_save now p s =
     (if profile_violation p s then (Inl IntegrityError, s)
      else case profile_pk p of
             Some k \<Rightarrow>
               if Some k \<in> set (map profile_pk (profiles s)) then update_profile now k p s
               else insert_profile now k p s
           | None \<Rightarrow> insert_profile now (fresh_pk (map profile_pk (profiles s))) p s)"

text \<open>
  \<^verbatim>\<open>user.delete()\<close> with \<^verbatim>\<open>on_delete=CASCADE\<close> on \<^verbatim>\<open>UserProfile.user\<close>: the profiles that
  refer to the user are deleted first, then the user's row. The result is the number of
  deleted rows. An instance without primary key cannot be deleted.
\<close>

definition user_delete :: "User \<Rightarrow> store \<Rightarrow> (error + nat) \<times> store" where
  "user_delete u s =
     (case pk u of
        None \<Rightarrow>
          (Inl (ValueError
             ''User object can't be deleted because its id attribute is set to None.''), s)
      | Some k \<Rightarrow>
          (let owned = filter (\<lambda>p. user p = Some k) (profiles s);
               gone = filter (\<lambda>r. pk r = Some k) (users s)
           in (Inr (length owned + length gone),
               s\<lparr>users := filter (\<lambda>r. pk r \<noteq> Some k) (users s),
                 profiles := filter (\<lambda>p. user p \<noteq> Some k) (profiles s),
                 writes := writes s
                   @ concat (map (\<lambda>p. case profile_pk p of None \<Rightarrow> []
                                          | Some j \<Rightarrow> [DeleteProfile j]) owned)
                   @ map (\<lambda>r. DeleteUser k) gone\<rparr>)))"

section \<open>The manager\<close>

text \<open>
  \<^verbatim>\<open>self.model(email=..., username=..., first_name=..., last_name=...)\<close>: the other columns
  take their declared defaults.
\<close>

definition model :: "string \<Rightarrow> string option \<Rightarrow> string \<Rightarrow> string \<Rightarrow> User" where
  "model mail uname fname lname =
     \<lparr>pk = None, password = [], is_superuser = False,
      first_name = fname, last_name = lname, username = uname, email = Some mail,
      phone_number = [], role = None,
      date_joined = None, last_login = None, modified_date = None, created_date = None,
      is_admin = False, is_active = False, is_superadmin = False, is_staff = False\<rparr>"

definition set_password :: "auth_env \<Rightarrow> string option \<Rightarrow> User \<Rightarrow> User" where
  "set_password env raw_password u = u\<lparr>password := make_password env raw_password\<rparr>"

definition create_user ::
  "auth_env \<Rightarrow> timestamp \<Rightarrow> string \<Rightarrow> string \<Rightarrow> string option \<Rightarrow> string option \<Rightarrow>
   string option \<Rightarrow> store \<Rightarrow> (error + User) \<times> store" where
  "create_user env now fname lname uname mail pw s =
     (if py_not mail then (Inl (ValueError ''User must have an email address''), s)
      else if py_not uname then (Inl (ValueError ''User must have a username''), s)
      else user_save now
             (set_password env pw (model (normalize_email env mail) uname fname lname)) s)"

text \<open>
  \<^verbatim>\<open>create_superuser\<close> normalises the email itself and hands the result to
  \<^verbatim>\<open>create_user\<close>; the two saves happen at the times \<open>now1\<close> and \<open>now2\<close>.
\<close>

definition create_superuser ::
  "auth_env \<Rightarrow> timestamp \<Rightarrow> timestamp \<Rightarrow> string \<Rightarrow> string \<Rightarrow> string option \<Rightarrow>
   string option \<Rightarrow> string option \<Rightarrow> store \<Rightarrow> (error + User) \<times> store" where
  "create_superuser env now1 now2 fname lname uname mail pw s =
     (case create_user env now1 fname lname uname (Some (normalize_email env mail)) pw s of
        (Inl e, s') \<Rightarrow> (Inl e, s')
      | (Inr u, s') \<Rightarrow>
          user_save now2
            (u\<lparr>is_admin := True, is_active := True, is_superadmin := True,
               is_staff := True, is_superuser := True\<rparr>) s')"

section \<open>Methods of the two models\<close>

definition user_str :: "User \<Rightarrow> error + string" where
  "user_str u = (case email u of None \<Rightarrow> Inl TypeError | Some e \<Rightarrow> Inr e)"

definition has_perms :: "User \<Rightarrow> 'p \<Rightarrow> 'o option \<Rightarrow> bool" where
  "has_perms u perms obj = (is_admin u \<or> is_superadmin u \<or> is_staff u)"

definition has_module_perms :: "User \<Rightarrow> 'a \<Rightarrow> bool" where
  "has_module_perms u app_label = (is_staff u \<or> is_admin u \<or> is_superadmin u)"

text \<open>
  \<^verbatim>\<open>UserProfile.__str__\<close> returns \<^verbatim>\<open>self.user.email\<close>: the owner is fetched through the
  reference, and reading \<^verbatim>\<open>email\<close> on \<^verbatim>\<open>None\<close> raises.
\<close>

definition userprofile_str :: "store \<Rightarrow> UserProfile \<Rightarrow> error + string" where
  "userprofile_str s p =
     (case user p of
        None \<Rightarrow> Inl AttributeError
      | Some k \<Rightarrow>
          (case get_user s k of
             None \<Rightarrow> Inl DoesNotExist
           | Some u \<Rightarrow> user_str u))"

section \<open>The credential contract\<close>

text \<open>
  Modelled from the spec: the test for a usable credential. The framework's
  \<^verbatim>\<open>has_usable_password\<close> of the base class is absent from the sources; the spec speaks of
  an account that is "left without a usable credential". The test on the stored value
  is a parameter, applied to the \<^verbatim>\<open>password\<close> column.
\<close>

definition has_usable_password :: "(string \<Rightarrow> bool) \<Rightarrow> User \<Rightarrow> bool" where
  "has_usable_password usable u = usable (password u)"

text \<open>
  Modelled from the spec: the contract of the hashing transform behind \<^verbatim>\<open>set_password\<close>,
  which is supplied by the environment and absent from the sources. The spec requires of
  it that a given password is "transformed via one-way secure hashing before
  persistence", "never stored or displayed in plaintext", and that without a password
  "the account is left without a usable credential". In the model: the value for a given
  password is not that password and is a usable credential, and the value for \<^verbatim>\<open>None\<close> is
  not usable. That the transform cannot be inverted in practice is a statement about
  computing cost and has no counterpart here.
\<close>

definition credential_contract :: "auth_env \<Rightarrow> (string \<Rightarrow> bool) \<Rightarrow> bool" where
  "credential_contract env usable =
     ((\<forall>raw. make_password env (Some raw) \<noteq> raw \<and> usable (make_password env (Some raw))) \<and>
      \<not> usable (make_password env None))"

section \<open>Constraints of the store\<close>

text \<open>
  What the column declarations promise of the stored rows: every user row has a key, a
  username and an email, keys are not shared, and two rows that share a username or an
  email are one row.
\<close>

definition users_ok :: "User list \<Rightarrow> bool" where
  "users_ok rows =
     (distinct (map pk rows) \<and>
      (\<forall>r \<in> set rows. pk r \<noteq> None \<and> username r \<noteq> None \<and> email r \<noteq> None) \<and>
      (\<forall>r \<in> set rows. \<forall>r' \<in> set rows.
          (username r = username r' \<or> email r = email r') \<longrightarrow> pk r = pk r'))"

text \<open>
  Every profile row has a key, keys are not shared, an owner is a stored user, and two
  profiles of one owner are one profile.
\<close>

definition profiles_ok :: "store \<Rightarrow> bool" where
  "profiles_ok s =
     (distinct (map profile_pk (profiles s)) \<and>
      (\<forall>p \<in> set (profiles s). profile_pk p \<noteq> None \<and>
          (user p = None \<or> user p \<in> set (map pk (users s)))) \<and>
      (\<forall>p \<in> set (profiles s). \<forall>q \<in> set (profiles s).
          user p = user q \<and> user p \<noteq> None \<longrightarrow> profile_pk p = profile_pk q))"

definition store_ok :: "store \<Rightarrow> bool" where
  "store_ok s = (users_ok (users s) \<and> profiles_ok s)"

text \<open>
  The stores that the operations can produce, starting from empty tables. Saves and
  deletions take any instance, so the set covers edits made outside the manager too.
\<close>

inductive reachable :: "store \<Rightarrow> bool" where
  init: "reachable empty_store"
| by_create_user:
    "reachable s \<Longrightarrow> reachable (snd (create_user env now fname lname uname mail pw s))"
| by_create_superuser:
    "reachable s \<Longrightarrow>
     reachable (snd (create_superuser env now1 now2 fname lname uname mail pw s))"
| by_user_save: "reachable s \<Longrightarrow> reachable (snd (user_save now u s))"
| by_profile_save: "reachable s \<Longrightarrow> reachable (snd (profile_save now p s))"
| by_user_delete: "reachable s \<Longrightarrow> reachable (snd (user_delete u s))"

section \<open>Sample values\<close>

text \<open>
  An environment for running the model on concrete inputs: a normalisation that keeps
  an address whose domain is already in lower case and maps \<^verbatim>\<open>None\<close> to the empty
  string, and a stand-in for the hashing transform.
\<close>

definition sample_env :: auth_env where
  "sample_env =
     \<lparr>normalize_email = (\<lambda>e. case e of None \<Rightarrow> [] | Some v \<Rightarrow> v),
      make_password = (\<lambda>p. case p of None \<Rightarrow> ''!'' | Some v \<Rightarrow> ''h$'' @ rev v)\<rparr>"

text \<open>The usable credentials of the sample environment: those that do not start with \<^verbatim>\<open>!\<close>.\<close>

definition sample_usable :: "string \<Rightarrow> bool" where
  "sample_usable h = (take 1 h \<noteq> ''!'')"

definition ann :: User where
  "ann =
     \<lparr>pk = Some 1, password = ''!'', is_superuser = False,
      first_name = ''Ann'', last_name = ''Lee'', username = Some ''ann'',
      email = Some ''ann@x.org'', phone_number = [], role = None,
      date_joined = Some 7, last_login = Some 7, modified_date = Some 7,
      created_date = Some 7,
      is_admin = False, is_active = False, is_superadmin = False, is_staff = False\<rparr>"

definition ann_store :: store where
  "ann_store = \<lparr>users = [ann], profiles = [], writes = [InsertUser 1]\<rparr>"

text \<open>
  The user that \<^verbatim>\<open>create_user\<close> builds at time 8 on \<open>ann_store\<close> from the names
  \<^verbatim>\<open>Bob\<close>, \<^verbatim>\<open>Roe\<close>, the username \<^verbatim>\<open>bob\<close>, the email \<^verbatim>\<open>bob@x.org\<close> and the
  password \<^verbatim>\<open>pw\<close>.
\<close>

definition bob :: User where
  "bob =
     \<lparr>pk = Some 2, password = ''h$wp'', is_superuser = False,
      first_name = ''Bob'', last_name = ''Roe'', username = Some ''bob'',
      email = Some ''bob@x.org'', phone_number = [], role = None,
      date_joined = Some 8, last_login = Some 8, modified_date = Some 8,
      created_date = Some 8,
      is_admin = False, is_active = False, is_superadmin = False, is_staff = False\<rparr>"

definition blank_profile :: UserProfile where
  "blank_profile =
     \<lparr>profile_pk = None, user = None, profile_picture = None, cover_photo = None,
      address_line1 = None, address_line2 = None, country = None, state = None,
      city = None, pin_code = None, latitude = None, longitude = None,
      created_at = None, modified_at = None\<rparr>"

text \<open>
  The row of Ann's profile, saved at time 8 on \<open>ann_store\<close> without images, and the store
  that holds it.
\<close>

definition ann_profile :: UserProfile where
  "ann_profile =
     blank_profile\<lparr>profile_pk := Some 1, user := Some 1, profile_picture := Some [],
                   cover_photo := Some [], created_at := Some 8, modified_at := Some 8\<rparr>"

definition ann_profile_store :: store where
  "ann_profile_store =
     \<lparr>users = [ann], profiles = [ann_profile], writes = [InsertUser 1, InsertProfile 1]\<rparr>"

section \<open>Auxiliary facts\<close>

lemma fold_max_ge: "m \<le> fold (\<lambda>k m. case k of None \<Rightarrow> m | Some n \<Rightarrow> max n m) ks (m::nat)"
proof (induction ks arbitrary: m)
  case Nil
  show ?case by simp
next
  case (Cons k ks)
  show ?case
  proof (cases k)
    case None
    then show ?thesis using Cons.IH [of m] by simp
  next
    case (Some n)
    have "max n m \<le> fold (\<lambda>k m. case k of None \<Rightarrow> m | Some n \<Rightarrow> max n m) ks (max n m)"
      by (rule Cons.IH)
    then show ?thesis using Some by simp
  qed
qed

lemma fold_max_member:
  "Some n \<in> set ks \<Longrightarrow> n \<le> fold (\<lambda>k m. case k of None \<Rightarrow> m | Some n \<Rightarrow> max n m) ks (m::nat)"
proof (induction ks arbitrary: m)
  case Nil
  then show ?case by simp
next
  case (Cons k ks)
  show ?case
  proof (cases "k = Some n")
    case True
    have "max n m \<le> fold (\<lambda>k m. case k of None \<Rightarrow> m | Some n \<Rightarrow> max n m) ks (max n m)"
      by (rule fold_max_ge)
    then show ?thesis using True by simp
  next
    case False
    then have "Some n \<in> set ks" using Cons.prems by simp
    then show ?thesis using Cons.IH by (cases k) simp_all
  qed
qed

lemma fresh_pk_notin: "Some (fresh_pk ks) \<notin> set ks"
proof
  assume "Some (fresh_pk ks) \<in> set ks"
  then have "fresh_pk ks \<le> fold (\<lambda>k m. case k of None \<Rightarrow> m | Some n \<Rightarrow> max n m) ks 0"
    by (rule fold_max_member)
  then show False by (simp add: fresh_pk_def)
qed

lemma no_violation_iff:
  "(\<not> unique_violation u rows) =
   (\<forall>r \<in> set rows. pk r = pk u \<or> (username r \<noteq> username u \<and> email r \<noteq> email u))"
  by (auto simp: unique_violation_def list_ex_iff)

lemma user_save_error_store: "fst (user_save now u s) = Inl e \<Longrightarrow> snd (user_save now u s) = s"
  by (auto simp: user_save_def insert_user_def update_user_def Let_def split: if_splits option.splits)

lemma user_save_new:
  assumes "pk u = None" "username u \<noteq> None" "email u \<noteq> None"
    and "\<not> unique_violation u (users s)"
  shows "user_save now u s = insert_user now (fresh_pk (map pk (users s))) u s"
  using assms by (auto simp: user_save_def)

subsection \<open>Saving and deleting keep the constraints\<close>

lemma map_pk_update:
  assumes "pk v = Some k"
  shows "map pk (map (\<lambda>r. if pk r = Some k then v else r) rows) = map pk rows"
  using assms by (induction rows) auto

lemma set_update_rows:
  "x \<in> set (map (\<lambda>r. if pk r = Some k then v else r) rows) \<Longrightarrow>
     x = v \<or> (x \<in> set rows \<and> pk x \<noteq> Some k)"
proof (induction rows)
  case Nil
  then show ?case by simp
next
  case (Cons a rows)
  show ?case
  proof (cases "pk a = Some k")
    case True
    then show ?thesis using Cons by fastforce
  next
    case False
    then show ?thesis using Cons by fastforce
  qed
qed

lemma users_ok_replace:
  assumes ok: "users_ok rows" and k: "pk v = Some k"
    and nn: "username v \<noteq> None" "email v \<noteq> None"
    and other: "\<forall>r \<in> set rows. pk r = Some k \<or> (username r \<noteq> username v \<and> email r \<noteq> email v)"
  shows "users_ok (map (\<lambda>r. if pk r = Some k then v else r) rows)"
proof -
  define rows' where "rows' = map (\<lambda>r. if pk r = Some k then v else r) rows"
  have pks: "map pk rows' = map pk rows"
    unfolding rows'_def using k by (rule map_pk_update)
  have sub: "\<And>x. x \<in> set rows' \<Longrightarrow> x = v \<or> (x \<in> set rows \<and> pk x \<noteq> Some k)"
    unfolding rows'_def by (rule set_update_rows)
  have d: "distinct (map pk rows')"
    unfolding pks using ok unfolding users_ok_def by blast
  have n: "\<forall>r \<in> set rows'. pk r \<noteq> None \<and> username r \<noteq> None \<and> email r \<noteq> None"
  proof
    fix r
    assume "r \<in> set rows'"
    then have "r = v \<or> (r \<in> set rows \<and> pk r \<noteq> Some k)" by (rule sub)
    then show "pk r \<noteq> None \<and> username r \<noteq> None \<and> email r \<noteq> None"
    proof
      assume "r = v"
      then show ?thesis using k nn by simp
    next
      assume "r \<in> set rows \<and> pk r \<noteq> Some k"
      then show ?thesis using ok unfolding users_ok_def by blast
    qed
  qed
  have p: "\<forall>r \<in> set rows'. \<forall>r' \<in> set rows'.
      (username r = username r' \<or> email r = email r') \<longrightarrow> pk r = pk r'"
  proof (intro ballI impI)
    fix r r'
    assume r: "r \<in> set rows'" and r': "r' \<in> set rows'"
      and eq: "username r = username r' \<or> email r = email r'"
    from r have cr: "r = v \<or> (r \<in> set rows \<and> pk r \<noteq> Some k)" by (rule sub)
    from r' have cr': "r' = v \<or> (r' \<in> set rows \<and> pk r' \<noteq> Some k)" by (rule sub)
    have old: "\<And>a b. a \<in> set rows \<Longrightarrow> b \<in> set rows \<Longrightarrow>
        username a = username b \<or> email a = email b \<Longrightarrow> pk a = pk b"
      using ok unfolding users_ok_def by blast
    from cr cr' show "pk r = pk r'"
    proof (elim disjE conjE)
      assume "r = v" "r' = v"
      then show ?thesis by simp
    next
      assume "r = v" "r' \<in> set rows" "pk r' \<noteq> Some k"
      then show ?thesis using other eq by auto
    next
      assume "r \<in> set rows" "pk r \<noteq> Some k" "r' = v"
      then show ?thesis using other eq by auto
    next
      assume "r \<in> set rows" "r' \<in> set rows"
      then show ?thesis using eq by (rule old)
    qed
  qed
  show ?thesis
    unfolding users_ok_def rows'_def [symmetric] using d n p by blast
qed

lemma users_ok_update:
  assumes ok: "users_ok rows" and k: "pk u = Some k"
    and nn: "username u \<noteq> None" "email u \<noteq> None"
    and nv: "\<not> unique_violation u rows"
  shows "users_ok (map (\<lambda>r. if pk r = Some k then u\<lparr>created_date := Some now\<rparr> else r) rows)"
proof (rule users_ok_replace [OF ok])
  show "pk (u\<lparr>created_date := Some now\<rparr>) = Some k" using k by simp
  show "username (u\<lparr>created_date := Some now\<rparr>) \<noteq> None" using nn by simp
  show "email (u\<lparr>created_date := Some now\<rparr>) \<noteq> None" using nn by simp
  show "\<forall>r \<in> set rows. pk r = Some k \<or>
      (username r \<noteq> username (u\<lparr>created_date := Some now\<rparr>) \<and>
       email r \<noteq> email (u\<lparr>created_date := Some now\<rparr>))"
    using nv k by (simp add: no_violation_iff)
qed

lemma users_ok_insert:
  assumes ok: "users_ok rows" and fresh: "Some k \<notin> set (map pk rows)"
    and v: "pk v = Some k" "username v \<noteq> None" "email v \<noteq> None"
    and other: "\<forall>r \<in> set rows. username r \<noteq> username v \<and> email r \<noteq> email v"
  shows "users_ok (rows @ [v])"
proof -
  have d0: "distinct (map pk rows)"
    using ok unfolding users_ok_def by blast
  have n0: "\<And>r. r \<in> set rows \<Longrightarrow> pk r \<noteq> None \<and> username r \<noteq> None \<and> email r \<noteq> None"
    using ok unfolding users_ok_def by blast
  have old: "\<And>a b. a \<in> set rows \<Longrightarrow> b \<in> set rows \<Longrightarrow>
      username a = username b \<or> email a = email b \<Longrightarrow> pk a = pk b"
    using ok unfolding users_ok_def by blast
  have d: "distinct (map pk (rows @ [v]))"
    using d0 fresh v(1) by simp
  have n: "\<forall>r \<in> set (rows @ [v]). pk r \<noteq> None \<and> username r \<noteq> None \<and> email r \<noteq> None"
    using n0 v by auto
  have p: "\<forall>r \<in> set (rows @ [v]). \<forall>r' \<in> set (rows @ [v]).
      (username r = username r' \<or> email r = email r') \<longrightarrow> pk r = pk r'"
  proof (intro ballI impI)
    fix r r'
    assume r: "r \<in> set (rows @ [v])" and r': "r' \<in> set (rows @ [v])"
      and eq: "username r = username r' \<or> email r = email r'"
    from r have cr: "r = v \<or> r \<in> set rows" by auto
    from r' have cr': "r' = v \<or> r' \<in> set rows" by auto
    from cr cr' show "pk r = pk r'"
    proof (elim disjE)
      assume "r = v" "r' = v"
      then show ?thesis by simp
    next
      assume "r = v" "r' \<in> set rows"
      then show ?thesis using other eq by auto
    next
      assume "r \<in> set rows" "r' = v"
      then show ?thesis using other eq by auto
    next
      assume "r \<in> set rows" "r' \<in> set rows"
      then show ?thesis using eq by (rule old)
    qed
  qed
  show ?thesis
    unfolding users_ok_def using d n p by blast
qed

lemma user_save_cases:
  obtains (refused) "user_save now u s = (Inl IntegrityError, s)"
  | (updated) k where "pk u = Some k" "Some k \<in> set (map pk (users s))"
      "username u \<noteq> None" "email u \<noteq> None" "\<not> unique_violation u (users s)"
      "user_save now u s = update_user now k u s"
      "date_joined u \<noteq> None" "last_login u \<noteq> None" "modified_date u \<noteq> None"
  | (inserted) k where "pk u = Some k \<or> pk u = None" "Some k \<notin> set (map pk (users s))"
      "username u \<noteq> None" "email u \<noteq> None" "\<not> unique_violation u (users s)"
      "user_save now u s = insert_user now k u s"
proof (cases "username u = None \<or> email u = None \<or> unique_violation u (users s)")
  case True
  then have "user_save now u s = (Inl IntegrityError, s)"
    by (auto simp: user_save_def)
  then show ?thesis by (rule refused)
next
  case False
  then have ok: "username u \<noteq> None" "email u \<noteq> None" "\<not> unique_violation u (users s)"
    by simp_all
  show ?thesis
  proof (cases "pk u")
    case None
    have "user_save now u s = insert_user now (fresh_pk (map pk (users s))) u s"
      using None ok by (rule user_save_new)
    then show ?thesis
      using None ok fresh_pk_notin [of "map pk (users s)"] by (intro inserted) auto
  next
    case (Some k)
    show ?thesis
    proof (cases "Some k \<in> set (map pk (users s))")
      case True
      have upd: "user_save now u s = update_user now k u s"
        using Some True ok by (auto simp: user_save_def)
      show ?thesis
      proof (cases "date_joined u = None \<or> last_login u = None \<or> modified_date u = None")
        case null: True
        then have "user_save now u s = (Inl IntegrityError, s)"
          using upd by (auto simp: update_user_def)
        then show ?thesis by (rule refused)
      next
        case False
        then show ?thesis using Some True ok upd by (intro updated) auto
      qed
    next
      case False
      have "user_save now u s = insert_user now k u s"
        using Some False ok by (auto simp: user_save_def)
      then show ?thesis using Some False ok by (intro inserted) auto
    qed
  qed
qed

lemma user_save_users_ok:
  assumes "users_ok (users s)"
  shows "users_ok (users (snd (user_save now u s)))"
proof (cases rule: user_save_cases [of now u s])
  case refused
  then show ?thesis using assms by simp
next
  case (updated k)
  then show ?thesis
    using users_ok_update [OF assms, of u k now] by (simp add: update_user_def Let_def)
next
  case (inserted k)
  let ?v = "u\<lparr>pk := Some k, date_joined := Some now, last_login := Some now,
                 modified_date := Some now, created_date := Some now\<rparr>"
  have "\<forall>r \<in> set (users s). pk r \<noteq> None"
    using assms unfolding users_ok_def by blast
  then have all: "\<forall>r \<in> set (users s). pk r \<noteq> pk u"
    using inserted(1,2) by (metis image_eqI list.set_map)
  have "\<forall>r \<in> set (users s). username r \<noteq> username ?v \<and> email r \<noteq> email ?v"
    using inserted(5) all by (auto simp: no_violation_iff)
  then have "users_ok (users s @ [?v])"
    using inserted(2-4) by (intro users_ok_insert [OF assms]) simp_all
  then show ?thesis using inserted(6) by (simp add: insert_user_def Let_def)
qed

lemma user_save_frame:
  "profiles (snd (user_save now u s)) = profiles s \<and>
   set (map pk (users s)) \<subseteq> set (map pk (users (snd (user_save now u s))))"
proof (cases rule: user_save_cases [of now u s])
  case refused
  then show ?thesis by simp
next
  case (updated k)
  have "map pk (map (\<lambda>r. if pk r = Some k then u\<lparr>created_date := Some now\<rparr> else r) (users s))
      = map pk (users s)"
    using updated(1) by (intro map_pk_update) simp
  then show ?thesis using updated(6-9) by (simp add: update_user_def Let_def)
next
  case (inserted k)
  then show ?thesis by (auto simp: insert_user_def Let_def)
qed

lemma profiles_ok_mono:
  assumes "profiles_ok s" "profiles s' = profiles s"
    and "set (map pk (users s)) \<subseteq> set (map pk (users s'))"
  shows "profiles_ok s'"
proof -
  have "\<forall>p \<in> set (profiles s'). profile_pk p \<noteq> None \<and>
          (user p = None \<or> user p \<in> set (map pk (users s')))"
  proof
    fix p
    assume "p \<in> set (profiles s')"
    then have "p \<in> set (profiles s)" using assms(2) by simp
    then have "profile_pk p \<noteq> None"
      and "user p = None \<or> user p \<in> set (map pk (users s))"
      using assms(1) unfolding profiles_ok_def by blast+
    then show "profile_pk p \<noteq> None \<and>
          (user p = None \<or> user p \<in> set (map pk (users s')))"
      using assms(3) by blast
  qed
  moreover have "distinct (map profile_pk (profiles s'))"
    using assms(1,2) unfolding profiles_ok_def by simp
  moreover have "\<forall>p \<in> set (profiles s'). \<forall>q \<in> set (profiles s').
          user p = user q \<and> user p \<noteq> None \<longrightarrow> profile_pk p = profile_pk q"
    using assms(1) unfolding profiles_ok_def assms(2) by blast
  ultimately show ?thesis
    unfolding profiles_ok_def by blast
qed

lemma user_save_store_ok:
  assumes "store_ok s"
  shows "store_ok (snd (user_save now u s))"
  using assms user_save_users_ok [of s now u] user_save_frame [of now u s]
    profiles_ok_mono [of s "snd (user_save now u s)"]
  by (simp add: store_ok_def)

lemma map_profile_pk_update:
  assumes "profile_pk q = Some k"
  shows "map profile_pk (map (\<lambda>r. if profile_pk r = Some k then q else r) rows) =
     map profile_pk rows"
  using assms by (induction rows) auto

lemma set_update_profiles:
  "x \<in> set (map (\<lambda>r. if profile_pk r = Some k then q else r) rows) \<Longrightarrow>
     x = q \<or> (x \<in> set rows \<and> profile_pk x \<noteq> Some k)"
proof (induction rows)
  case Nil
  then show ?case by simp
next
  case (Cons a rows)
  show ?case
  proof (cases "profile_pk a = Some k")
    case True
    then show ?thesis using Cons by fastforce
  next
    case False
    then show ?thesis using Cons by fastforce
  qed
qed

lemma no_profile_violation_iff:
  "(\<not> profile_violation p s) =
   (user p = None \<or>
    (user p \<in> set (map pk (users s)) \<and>
     (\<forall>r \<in> set (profiles s). profile_pk r = profile_pk p \<or> user r \<noteq> user p)))"
  by (cases "user p") (auto simp: profile_violation_def list_ex_iff)

lemma profiles_ok_rows:
  assumes ok: "profiles_ok s" and usr: "users s' = users s"
    and sub: "\<And>x. x \<in> set (profiles s') \<Longrightarrow> x = q \<or> (x \<in> set (profiles s) \<and> profile_pk x \<noteq> Some k)"
    and d: "distinct (map profile_pk (profiles s'))"
    and q: "profile_pk q = Some k" "user q = None \<or> user q \<in> set (map pk (users s))"
    and other: "\<forall>r \<in> set (profiles s). profile_pk r = Some k \<or> user q = None \<or> user r \<noteq> user q"
  shows "profiles_ok s'"
proof -
  have n0: "\<And>r. r \<in> set (profiles s) \<Longrightarrow>
      profile_pk r \<noteq> None \<and> (user r = None \<or> user r \<in> set (map pk (users s)))"
    using ok unfolding profiles_ok_def by blast
  have old: "\<And>a b. a \<in> set (profiles s) \<Longrightarrow> b \<in> set (profiles s) \<Longrightarrow>
      user a = user b \<and> user a \<noteq> None \<Longrightarrow> profile_pk a = profile_pk b"
    using ok unfolding profiles_ok_def by blast
  have n: "\<forall>r \<in> set (profiles s'). profile_pk r \<noteq> None \<and>
      (user r = None \<or> user r \<in> set (map pk (users s')))"
  proof
    fix r
    assume "r \<in> set (profiles s')"
    then have "r = q \<or> (r \<in> set (profiles s) \<and> profile_pk r \<noteq> Some k)" by (rule sub)
    then show "profile_pk r \<noteq> None \<and> (user r = None \<or> user r \<in> set (map pk (users s')))"
    proof
      assume "r = q"
      then show ?thesis using q usr by simp
    next
      assume "r \<in> set (profiles s) \<and> profile_pk r \<noteq> Some k"
      then show ?thesis using n0 [of r] usr by simp
    qed
  qed
  have p: "\<forall>a \<in> set (profiles s'). \<forall>b \<in> set (profiles s').
      user a = user b \<and> user a \<noteq> None \<longrightarrow> profile_pk a = profile_pk b"
  proof (intro ballI impI)
    fix a b
    assume a: "a \<in> set (profiles s')" and b: "b \<in> set (profiles s')"
      and eq: "user a = user b \<and> user a \<noteq> None"
    from a have ca: "a = q \<or> (a \<in> set (profiles s) \<and> profile_pk a \<noteq> Some k)" by (rule sub)
    from b have cb: "b = q \<or> (b \<in> set (profiles s) \<and> profile_pk b \<noteq> Some k)" by (rule sub)
    from ca cb show "profile_pk a = profile_pk b"
    proof (elim disjE conjE)
      assume "a = q" "b = q"
      then show ?thesis by simp
    next
      assume "a = q" "b \<in> set (profiles s)" "profile_pk b \<noteq> Some k"
      then show ?thesis using other eq by auto
    next
      assume "a \<in> set (profiles s)" "profile_pk a \<noteq> Some k" "b = q"
      then show ?thesis using other eq by auto
    next
      assume "a \<in> set (profiles s)" "b \<in> set (profiles s)"
      then show ?thesis using eq by (rule old)
    qed
  qed
  show ?thesis
    unfolding profiles_ok_def using d n p by blast
qed

lemma profile_save_cases:
  obtains (refused) "profile_violation p s \<or> (profile_pk p \<noteq> None \<and> created_at p = None)"
      "profile_save now p s = (Inl IntegrityError, s)"
  | (updated) k where "profile_pk p = Some k" "Some k \<in> set (map profile_pk (profiles s))"
      "\<not> profile_violation p s" "profile_save now p s = update_profile now k p s"
      "created_at p \<noteq> None"
  | (inserted) k where "profile_pk p = Some k \<or> profile_pk p = None"
      "Some k \<notin> set (map profile_pk (profiles s))"
      "\<not> profile_violation p s" "profile_save now p s = insert_profile now k p s"
proof (cases "profile_violation p s")
  case True
  then have "profile_save now p s = (Inl IntegrityError, s)"
    by (simp add: profile_save_def)
  with True show ?thesis by (intro refused) auto
next
  case False
  show ?thesis
  proof (cases "profile_pk p")
    case None
    have "profile_save now p s = insert_profile now (fresh_pk (map profile_pk (profiles s))) p s"
      using None False by (simp add: profile_save_def)
    then show ?thesis
      using None False fresh_pk_notin [of "map profile_pk (profiles s)"]
      by (intro inserted) auto
  next
    case (Some k)
    show ?thesis
    proof (cases "Some k \<in> set (map profile_pk (profiles s))")
      case True
      have upd: "profile_save now p s = update_profile now k p s"
        using Some True False by (simp add: profile_save_def)
      show ?thesis
      proof (cases "created_at p = None")
        case null: True
        then have "profile_save now p s = (Inl IntegrityError, s)"
          using upd by (simp add: update_profile_def)
        then show ?thesis using null Some by (intro refused) auto
      next
        case False
        then show ?thesis using Some True \<open>\<not> profile_violation p s\<close> upd
          by (intro updated) auto
      qed
    next
      case no: False
      have "profile_save now p s = insert_profile now k p s"
        using Some no False by (simp add: profile_save_def)
      then show ?thesis using Some no False by (intro inserted) auto
    qed
  qed
qed

lemma profile_row_fields:
  "profile_pk (profile_row p) = profile_pk p" "user (profile_row p) = user p"
  by (simp_all add: profile_row_def)

lemma profile_save_users: "users (snd (profile_save now p s)) = users s"
  by (cases rule: profile_save_cases [of p s now])
    (simp_all add: update_profile_def insert_profile_def Let_def)

lemma profile_save_profiles_ok:
  assumes ok: "profiles_ok s"
  shows "profiles_ok (snd (profile_save now p s))"
proof (cases rule: profile_save_cases [of p s now])
  case refused
  then show ?thesis using ok by simp
next
  case (updated k)
  define q where "q = profile_row (p\<lparr>modified_at := Some now\<rparr>)"
  define s' where "s' = snd (profile_save now p s)"
  have q: "profile_pk q = Some k" "user q = user p"
    using updated(1) by (simp_all add: q_def profile_row_fields)
  have rows: "profiles s' = map (\<lambda>r. if profile_pk r = Some k then q else r) (profiles s)"
    and usr: "users s' = users s"
    using updated(4,5) by (simp_all add: s'_def q_def update_profile_def Let_def)
  have nv: "user p = None \<or>
    (user p \<in> set (map pk (users s)) \<and>
     (\<forall>r \<in> set (profiles s). profile_pk r = profile_pk p \<or> user r \<noteq> user p))"
    using updated(3) by (simp only: no_profile_violation_iff)
  have "profiles_ok s'"
  proof (rule profiles_ok_rows [OF ok usr, of q k])
    fix x
    assume "x \<in> set (profiles s')"
    then show "x = q \<or> (x \<in> set (profiles s) \<and> profile_pk x \<noteq> Some k)"
      unfolding rows by (rule set_update_profiles)
  next
    have "map profile_pk (profiles s') = map profile_pk (profiles s)"
      unfolding rows using q(1) by (rule map_profile_pk_update)
    then show "distinct (map profile_pk (profiles s'))"
      using ok unfolding profiles_ok_def by simp
  next
    show "profile_pk q = Some k" by (rule q(1))
  next
    show "user q = None \<or> user q \<in> set (map pk (users s))"
      using nv q(2) by auto
  next
    show "\<forall>r \<in> set (profiles s). profile_pk r = Some k \<or> user q = None \<or> user r \<noteq> user q"
      using nv q(2) updated(1) by auto
  qed
  then show ?thesis by (simp add: s'_def)
next
  case (inserted k)
  define q where "q = profile_row
      (p\<lparr>profile_pk := Some k, created_at := Some now, modified_at := Some now\<rparr>)"
  define s' where "s' = snd (profile_save now p s)"
  have q: "profile_pk q = Some k" "user q = user p"
    by (simp_all add: q_def profile_row_fields)
  have rows: "profiles s' = profiles s @ [q]" and usr: "users s' = users s"
    using inserted(4) by (simp_all add: s'_def q_def insert_profile_def Let_def)
  have nv: "user p = None \<or>
    (user p \<in> set (map pk (users s)) \<and>
     (\<forall>r \<in> set (profiles s). profile_pk r = profile_pk p \<or> user r \<noteq> user p))"
    using inserted(3) by (simp only: no_profile_violation_iff)
  have keys: "\<forall>r \<in> set (profiles s). profile_pk r \<noteq> None \<and> profile_pk r \<noteq> Some k"
  proof
    fix r
    assume r: "r \<in> set (profiles s)"
    then have "profile_pk r \<noteq> None"
      using ok unfolding profiles_ok_def by blast
    moreover have "profile_pk r \<noteq> Some k"
      using r inserted(2) by (metis image_eqI list.set_map)
    ultimately show "profile_pk r \<noteq> None \<and> profile_pk r \<noteq> Some k" by blast
  qed
  have "profiles_ok s'"
  proof (rule profiles_ok_rows [OF ok usr, of q k])
    fix x
    assume "x \<in> set (profiles s')"
    then have "x = q \<or> x \<in> set (profiles s)" unfolding rows by auto
    then show "x = q \<or> (x \<in> set (profiles s) \<and> profile_pk x \<noteq> Some k)"
      using keys by blast
  next
    have "distinct (map profile_pk (profiles s))"
      using ok unfolding profiles_ok_def by blast
    then show "distinct (map profile_pk (profiles s'))"
      unfolding rows using inserted(2) q(1) by simp
  next
    show "profile_pk q = Some k" by (rule q(1))
  next
    show "user q = None \<or> user q \<in> set (map pk (users s))"
      using nv q(2) by auto
  next
    have "\<forall>r \<in> set (profiles s). profile_pk r \<noteq> profile_pk p"
      using keys inserted(1) by auto
    then show "\<forall>r \<in> set (profiles s). profile_pk r = Some k \<or> user q = None \<or> user r \<noteq> user q"
      using nv q(2) by auto
  qed
  then show ?thesis by (simp add: s'_def)
qed

lemma profile_save_store_ok:
  assumes "store_ok s"
  shows "store_ok (snd (profile_save now p s))"
  using assms profile_save_profiles_ok [of s now p] profile_save_users [of now p s]
  by (simp add: store_ok_def)

lemma users_ok_filter:
  assumes ok: "users_ok rows"
  shows "users_ok (filter P rows)"
proof -
  have "distinct (map pk rows)"
    using ok unfolding users_ok_def by blast
  then have d: "distinct (map pk (filter P rows))"
    by (rule distinct_map_filter)
  have n: "\<forall>r \<in> set (filter P rows). pk r \<noteq> None \<and> username r \<noteq> None \<and> email r \<noteq> None"
    using ok unfolding users_ok_def by auto
  have p: "\<forall>r \<in> set (filter P rows). \<forall>r' \<in> set (filter P rows).
      (username r = username r' \<or> email r = email r') \<longrightarrow> pk r = pk r'"
  proof (intro ballI impI)
    fix r r'
    assume "r \<in> set (filter P rows)" "r' \<in> set (filter P rows)"
      and eq: "username r = username r' \<or> email r = email r'"
    then have "r \<in> set rows" "r' \<in> set rows" by simp_all
    then show "pk r = pk r'"
      using eq ok unfolding users_ok_def by blast
  qed
  show ?thesis unfolding users_ok_def using d n p by blast
qed

lemma user_delete_rows:
  assumes "pk u = Some k"
  shows "users (snd (user_delete u s)) = filter (\<lambda>r. pk r \<noteq> Some k) (users s)"
    and "profiles (snd (user_delete u s)) = filter (\<lambda>p. user p \<noteq> Some k) (profiles s)"
  using assms by (simp_all add: user_delete_def Let_def)

lemma user_delete_store_ok:
  assumes ok: "store_ok s"
  shows "store_ok (snd (user_delete u s))"
proof (cases "pk u")
  case None
  then show ?thesis using ok by (simp add: user_delete_def)
next
  case (Some k)
  define s' where "s' = snd (user_delete u s)"
  have us: "users s' = filter (\<lambda>r. pk r \<noteq> Some k) (users s)"
    and ps: "profiles s' = filter (\<lambda>p. user p \<noteq> Some k) (profiles s)"
    unfolding s'_def using Some by (rule user_delete_rows)+
  have uok: "users_ok (users s')"
    unfolding us using ok unfolding store_ok_def by (intro users_ok_filter) blast
  have pok: "profiles_ok s" using ok unfolding store_ok_def by blast
  have "distinct (map profile_pk (profiles s))"
    using pok unfolding profiles_ok_def by blast
  then have d: "distinct (map profile_pk (profiles s'))"
    unfolding ps by (rule distinct_map_filter)
  have n: "\<forall>p \<in> set (profiles s'). profile_pk p \<noteq> None \<and>
      (user p = None \<or> user p \<in> set (map pk (users s')))"
  proof
    fix p
    assume "p \<in> set (profiles s')"
    then have p: "p \<in> set (profiles s)" "user p \<noteq> Some k"
      unfolding ps by simp_all
    then have key: "profile_pk p \<noteq> None"
      and fk: "user p = None \<or> user p \<in> set (map pk (users s))"
      using pok unfolding profiles_ok_def by blast+
    have "user p = None \<or> user p \<in> set (map pk (users s'))"
    proof (cases "user p = None")
      case True
      then show ?thesis by simp
    next
      case False
      with fk obtain r where "r \<in> set (users s)" "pk r = user p" by auto
      then have "r \<in> set (users s')" "pk r = user p"
        unfolding us using p(2) by simp_all
      then show ?thesis by (metis image_eqI list.set_map)
    qed
    with key show "profile_pk p \<noteq> None \<and>
      (user p = None \<or> user p \<in> set (map pk (users s')))" by blast
  qed
  have q: "\<forall>a \<in> set (profiles s'). \<forall>b \<in> set (profiles s').
      user a = user b \<and> user a \<noteq> None \<longrightarrow> profile_pk a = profile_pk b"
  proof (intro ballI impI)
    fix a b
    assume "a \<in> set (profiles s')" "b \<in> set (profiles s')"
      and eq: "user a = user b \<and> user a \<noteq> None"
    then have "a \<in> set (profiles s)" "b \<in> set (profiles s)"
      unfolding ps by simp_all
    then show "profile_pk a = profile_pk b"
      using eq pok unfolding profiles_ok_def by blast
  qed
  have "profiles_ok s'" unfolding profiles_ok_def using d n q by blast
  with uok show ?thesis unfolding store_ok_def s'_def by blast
qed

lemma create_user_store_ok:
  assumes "store_ok s"
  shows "store_ok (snd (create_user env now fname lname uname mail pw s))"
  using assms user_save_store_ok by (simp add: create_user_def)

lemma create_superuser_store_ok:
  assumes ok: "store_ok s"
  shows "store_ok (snd (create_superuser env now1 now2 fname lname uname mail pw s))"
proof -
  obtain r s1 where c: "create_user env now1 fname lname uname (Some (normalize_email env mail)) pw s = (r, s1)"
    by (cases "create_user env now1 fname lname uname (Some (normalize_email env mail)) pw s")
  have s1: "store_ok s1"
    using create_user_store_ok [OF ok, of env now1 fname lname uname "Some (normalize_email env mail)" pw] c
    by simp
  show ?thesis
  proof (cases r)
    case (Inl e)
    then show ?thesis using c s1 by (simp add: create_superuser_def)
  next
    case (Inr v)
    then show ?thesis using c user_save_store_ok [OF s1] by (simp add: create_superuser_def)
  qed
qed

lemma empty_store_ok: "store_ok empty_store"
  by (simp add: store_ok_def users_ok_def profiles_ok_def empty_store_def)

lemma reachable_store_ok: "reachable s \<Longrightarrow> store_ok s"
proof (induction rule: reachable.induct)
  case init
  show ?case by (rule empty_store_ok)
next
  case (by_create_user s env now fname lname uname mail pw)
  then show ?case by (intro create_user_store_ok)
next
  case (by_create_superuser s env now1 now2 fname lname uname mail pw)
  then show ?case by (intro create_superuser_store_ok)
next
  case (by_user_save s now u)
  then show ?case by (intro user_save_store_ok)
next
  case (by_profile_save s now p)
  then show ?case by (intro profile_save_store_ok)
next
  case (by_user_delete s u)
  then show ?case by (intro user_delete_store_ok)
qed

subsection \<open>The paths through the manager\<close>

lemma create_user_valid:
  assumes "\<not> py_not mail" "\<not> py_not uname"
  shows "create_user env now fname lname uname mail pw s =
     user_save now (set_password env pw (model (normalize_email env mail) uname fname lname)) s"
  using assms by (simp add: create_user_def)

lemma new_user_fields:
  "pk (set_password env pw (model m uname fname lname)) = None"
  "username (set_password env pw (model m uname fname lname)) = uname"
  "email (set_password env pw (model m uname fname lname)) = Some m"
  by (simp_all add: set_password_def model_def)

lemma create_user_Inr:
  assumes "create_user env now fname lname uname mail pw s = (Inr u, s1)"
  shows "\<not> py_not mail \<and> \<not> py_not uname \<and>
     \<not> unique_violation (set_password env pw (model (normalize_email env mail) uname fname lname)) (users s) \<and>
     (Inr u, s1) = insert_user now (fresh_pk (map pk (users s)))
        (set_password env pw (model (normalize_email env mail) uname fname lname)) s"
proof -
  let ?v = "set_password env pw (model (normalize_email env mail) uname fname lname)"
  have v: "\<not> py_not mail" "\<not> py_not uname"
    using assms by (auto simp: create_user_def split: if_splits)
  then have sv: "user_save now ?v s = (Inr u, s1)"
    using assms by (simp add: create_user_def)
  have nv: "\<not> unique_violation ?v (users s)"
    using sv by (auto simp: user_save_def split: if_splits)
  have "username ?v \<noteq> None"
    using v(2) by (cases uname) (simp_all add: new_user_fields py_not_def)
  then have "user_save now ?v s = insert_user now (fresh_pk (map pk (users s))) ?v s"
    using nv by (intro user_save_new) (simp_all add: new_user_fields)
  with sv v nv show ?thesis by simp
qed

lemma create_user_free:
  assumes v: "\<not> py_not mail" "\<not> py_not uname"
    and free: "uname \<notin> set (map username (users s))"
      "Some (normalize_email env mail) \<notin> set (map email (users s))"
  shows "create_user env now fname lname uname mail pw s =
     insert_user now (fresh_pk (map pk (users s)))
        (set_password env pw (model (normalize_email env mail) uname fname lname)) s"
proof -
  let ?v = "set_password env pw (model (normalize_email env mail) uname fname lname)"
  have "\<forall>r \<in> set (users s). username r \<noteq> uname \<and> email r \<noteq> Some (normalize_email env mail)"
    using free by (metis image_eqI list.set_map)
  then have nv: "\<not> unique_violation ?v (users s)"
    by (simp add: no_violation_iff new_user_fields)
  have "username ?v \<noteq> None"
    using v(2) by (cases uname) (simp_all add: new_user_fields py_not_def)
  then have "user_save now ?v s = insert_user now (fresh_pk (map pk (users s))) ?v s"
    using nv by (intro user_save_new) (simp_all add: new_user_fields)
  then show ?thesis using v by (simp add: create_user_valid)
qed

lemma map_update_absent:
  assumes "Some k \<notin> set (map pk rows)"
  shows "map (\<lambda>r. if pk r = Some k then v else r) rows = rows"
  using assms by (induction rows) auto

lemma create_superuser_resave:
  assumes ok: "users_ok (users s)"
    and c: "create_user env now1 fname lname uname (Some (normalize_email env mail)) pw s =
        (Inr u, s1)"
  shows "\<exists>k. pk u = Some k \<and> Some k \<notin> set (map pk (users s)) \<and>
      s1 = s\<lparr>users := users s @ [u], writes := writes s @ [InsertUser k]\<rparr> \<and>
      create_superuser env now1 now2 fname lname uname mail pw s =
        (Inr (u\<lparr>is_admin := True, is_active := True, is_superadmin := True, is_staff := True,
                is_superuser := True, created_date := Some now2\<rparr>),
         s\<lparr>users := users s @
              [u\<lparr>is_admin := True, is_active := True, is_superadmin := True, is_staff := True,
                 is_superuser := True, created_date := Some now2\<rparr>],
           writes := writes s @ [InsertUser k, UpdateUser k]\<rparr>)"
proof -
  define m where "m = normalize_email env (Some (normalize_email env mail))"
  define v where "v = set_password env pw (model m uname fname lname)"
  define k where "k = fresh_pk (map pk (users s))"
  define e where "e = u\<lparr>is_admin := True, is_active := True, is_superadmin := True,
      is_staff := True, is_superuser := True\<rparr>"
  define e' where "e' = e\<lparr>created_date := Some now2\<rparr>"
  note facts = create_user_Inr [OF c]
  have un: "\<not> py_not uname" using facts by blast
  have nv: "\<not> unique_violation v (users s)"
    unfolding v_def m_def using facts by blast
  have ins: "(Inr u, s1) = insert_user now1 k v s"
    unfolding v_def m_def k_def using facts by blast
  have vf: "pk v = None" "username v = uname" "email v = Some m"
    unfolding v_def by (rule new_user_fields)+
  have u: "u = v\<lparr>pk := Some k, date_joined := Some now1, last_login := Some now1,
                 modified_date := Some now1, created_date := Some now1\<rparr>"
    and s1: "s1 = s\<lparr>users := users s @ [u], writes := writes s @ [InsertUser k]\<rparr>"
    using ins by (simp_all add: insert_user_def Let_def)
  have uf: "pk u = Some k" "username u = uname" "email u = Some m"
    using vf by (simp_all add: u)
  have ef: "pk e = Some k" "username e = uname" "email e = Some m"
    using uf by (simp_all add: e_def)
  have et: "date_joined e = Some now1" "last_login e = Some now1" "modified_date e = Some now1"
    by (simp_all add: e_def u)
  have fresh: "Some k \<notin> set (map pk (users s))"
    unfolding k_def by (rule fresh_pk_notin)
  have keys: "\<forall>r \<in> set (users s). pk r \<noteq> None"
    using ok unfolding users_ok_def by blast
  have old: "\<forall>r \<in> set (users s). username r \<noteq> uname \<and> email r \<noteq> Some m"
    using nv keys by (auto simp: no_violation_iff vf)
  have rows1: "users s1 = users s @ [u]" by (simp add: s1)
  have nv2: "\<not> unique_violation e (users s1)"
    using old uf by (auto simp: no_violation_iff ef rows1)
  have nn: "username e \<noteq> None" "email e \<noteq> None"
    using un by (cases uname; simp add: ef py_not_def)+
  have mem: "Some k \<in> set (map pk (users s1))"
    using uf(1) by (simp add: rows1)
  have "user_save now2 e s1 = update_user now2 k e s1"
    using nn nv2 mem ef(1) by (auto simp: user_save_def)
  moreover have "map (\<lambda>r. if pk r = Some k then e' else r) (users s1) = users s @ [e']"
    using map_update_absent [OF fresh, of e'] uf(1) by (simp add: rows1)
  ultimately have sv: "user_save now2 e s1 =
      (Inr e', s\<lparr>users := users s @ [e'], writes := writes s @ [InsertUser k, UpdateUser k]\<rparr>)"
    using et by (simp add: update_user_def Let_def e'_def [symmetric] s1)
  have "create_superuser env now1 now2 fname lname uname mail pw s = user_save now2 e s1"
    using c by (simp add: create_superuser_def e_def)
  with sv have "create_superuser env now1 now2 fname lname uname mail pw s =
      (Inr e', s\<lparr>users := users s @ [e'], writes := writes s @ [InsertUser k, UpdateUser k]\<rparr>)"
    by simp
  moreover have "e' = u\<lparr>is_admin := True, is_active := True, is_superadmin := True,
      is_staff := True, is_superuser := True, created_date := Some now2\<rparr>"
    by (simp add: e'_def e_def)
  ultimately show ?thesis using uf(1) fresh s1 by auto
qed

lemma ann_store_reachable: "reachable ann_store"
proof -
  have "ann_store =
     snd (create_user sample_env 7 ''Ann'' ''Lee'' (Some ''ann'') (Some ''ann@x.org'') None
            empty_store)"
    by (simp add: py_not_def create_user_def user_save_def unique_violation_def set_password_def
      model_def sample_env_def ann_store_def ann_def empty_store_def insert_user_def
      fresh_pk_def Let_def)
  moreover have "reachable
     (snd (create_user sample_env 7 ''Ann'' ''Lee'' (Some ''ann'') (Some ''ann@x.org'') None
            empty_store))"
    by (rule reachable.by_create_user [OF reachable.init])
  ultimately show ?thesis by metis
qed

subsection \<open>Looking up rows, and the sample store\<close>

lemma find_update:
  assumes "find (\<lambda>r. pk r = Some k) rows = Some r" and "pk v = Some k"
  shows "find (\<lambda>r. pk r = Some k) (map (\<lambda>r. if pk r = Some k then v else r) rows) = Some v"
  using assms by (induction rows) (auto split: if_splits)

lemma get_user_stored:
  "(get_user s k \<noteq> None) = (Some k \<in> set (map pk (users s)))"
proof -
  have "(get_user s k \<noteq> None) = (\<exists>r \<in> set (users s). pk r = Some k)"
    unfolding get_user_def find_None_iff by blast
  also have "\<dots> = (Some k \<in> set (map pk (users s)))"
    by (metis (mono_tags, lifting) image_iff list.set_map)
  finally show ?thesis .
qed

lemma bob_created:
  "create_user sample_env 8 ''Bob'' ''Roe'' (Some ''bob'')
       (Some (normalize_email sample_env (Some ''bob@x.org''))) (Some ''pw'') ann_store =
     (Inr bob, ann_store\<lparr>users := [ann, bob], writes := [InsertUser 1, InsertUser 2]\<rparr>)"
  by (simp add: py_not_def create_user_def user_save_def unique_violation_def set_password_def
      model_def sample_env_def ann_store_def ann_def bob_def insert_user_def fresh_pk_def Let_def)

lemma bob_elevated:
  "create_superuser sample_env 8 9 ''Bob'' ''Roe'' (Some ''bob'') (Some ''bob@x.org'')
       (Some ''pw'') ann_store =
     (Inr (bob\<lparr>is_admin := True, is_active := True, is_superadmin := True, is_staff := True,
             is_superuser := True, created_date := Some 9\<rparr>),
      ann_store\<lparr>users := users ann_store @
           [bob\<lparr>is_admin := True, is_active := True, is_superadmin := True, is_staff := True,
              is_superuser := True, created_date := Some 9\<rparr>],
        writes := writes ann_store @ [InsertUser 2, UpdateUser 2]\<rparr>)"
proof -
  have ok: "users_ok (users ann_store)"
    using reachable_store_ok [OF ann_store_reachable] by (simp add: store_ok_def)
  have "pk bob = Some 2" by (simp add: bob_def)
  then show ?thesis
    using create_superuser_resave [OF ok bob_created, of 9] by auto
qed

lemma ann_resaved:
  "user_save 9 (ann\<lparr>is_staff := True\<rparr>) ann_store =
     (Inr (ann\<lparr>is_staff := True, created_date := Some 9\<rparr>),
      ann_store\<lparr>users := [ann\<lparr>is_staff := True, created_date := Some 9\<rparr>],
                writes := [InsertUser 1, UpdateUser 1]\<rparr>)"
  by (simp add: user_save_def unique_violation_def update_user_def ann_store_def ann_def Let_def)

subsection \<open>Rows left behind by the manager, and profiles\<close>

lemma sample_contract: "credential_contract sample_env sample_usable"
proof -
  have "make_password sample_env (Some raw) \<noteq> raw" for raw
  proof
    assume "make_password sample_env (Some raw) = raw"
    then have "length (make_password sample_env (Some raw)) = length raw" by simp
    then show False by (simp add: sample_env_def)
  qed
  moreover have "sample_usable (make_password sample_env (Some raw))" for raw
    by (simp add: sample_env_def sample_usable_def)
  moreover have "\<not> sample_usable (make_password sample_env None)"
    by (simp add: sample_env_def sample_usable_def)
  ultimately show ?thesis unfolding credential_contract_def by blast
qed

lemma unique_violation_password:
  "unique_violation (u\<lparr>password := h\<rparr>) rows = unique_violation u rows"
  by (simp add: unique_violation_def)

lemma user_save_password:
  "fst (user_save now (u\<lparr>password := h\<rparr>) s) =
     map_sum id (\<lambda>v. v\<lparr>password := h\<rparr>) (fst (user_save now u s))"
proof (cases "username u = None \<or> email u = None \<or> unique_violation u (users s)")
  case True
  then have "user_save now u s = (Inl IntegrityError, s)"
    and "user_save now (u\<lparr>password := h\<rparr>) s = (Inl IntegrityError, s)"
    by (auto simp: user_save_def unique_violation_password)
  then show ?thesis by simp
next
  case False
  then have ok: "username u \<noteq> None" "email u \<noteq> None" "\<not> unique_violation u (users s)"
    by simp_all
  show ?thesis
  proof (cases "pk u")
    case None
    then show ?thesis
      using ok by (auto simp: user_save_def unique_violation_password insert_user_def Let_def)
  next
    case (Some k)
    show ?thesis
    proof (cases "Some k \<in> set (map pk (users s))")
      case stored: True
      have "user_save now u s = update_user now k u s"
        and "user_save now (u\<lparr>password := h\<rparr>) s = update_user now k (u\<lparr>password := h\<rparr>) s"
        using Some stored ok by (auto simp: user_save_def unique_violation_password)
      then show ?thesis
        by (cases "date_joined u = None \<or> last_login u = None \<or> modified_date u = None")
          (auto simp: update_user_def Let_def)
    next
      case new: False
      have "user_save now u s = insert_user now k u s"
        and "user_save now (u\<lparr>password := h\<rparr>) s = insert_user now k (u\<lparr>password := h\<rparr>) s"
        using Some new ok by (auto simp: user_save_def unique_violation_password)
      then show ?thesis by (simp add: insert_user_def Let_def)
    qed
  qed
qed

lemma users_ok_distinct:
  assumes ok: "users_ok rows"
  shows "distinct (map email rows) \<and> distinct (map username rows)"
proof -
  have d: "distinct (map pk rows)"
    using ok unfolding users_ok_def by blast
  then have dr: "distinct rows" and inj: "inj_on pk (set rows)"
    by (simp_all add: distinct_map)
  have pair: "\<And>a b. a \<in> set rows \<Longrightarrow> b \<in> set rows \<Longrightarrow>
      username a = username b \<or> email a = email b \<Longrightarrow> a = b"
  proof -
    fix a b
    assume ab: "a \<in> set rows" "b \<in> set rows" "username a = username b \<or> email a = email b"
    then have "pk a = pk b"
      using ok unfolding users_ok_def by blast
    with ab(1,2) inj show "a = b" by (simp add: inj_on_def)
  qed
  have "inj_on email (set rows)"
    by (rule inj_onI) (simp add: pair)
  moreover have "inj_on username (set rows)"
    by (rule inj_onI) (simp add: pair)
  ultimately show ?thesis using dr by (simp add: distinct_map)
qed

lemma create_user_clash:
  assumes r: "r \<in> set (users s)" "pk r \<noteq> None"
    and same: "username r = uname \<or> email r = Some (normalize_email env mail)"
  shows "\<exists>e. create_user env now fname lname uname mail pw s = (Inl e, s)"
    and "\<not> py_not mail \<Longrightarrow> \<not> py_not uname \<Longrightarrow>
      create_user env now fname lname uname mail pw s = (Inl IntegrityError, s)"
proof -
  let ?v = "set_password env pw (model (normalize_email env mail) uname fname lname)"
  have clash: "unique_violation ?v (users s)"
    unfolding unique_violation_def list_ex_iff new_user_fields
    using r same by (intro bexI [of _ r]) auto
  show valid: "create_user env now fname lname uname mail pw s = (Inl IntegrityError, s)"
    if "\<not> py_not mail" "\<not> py_not uname"
    using that clash by (simp add: create_user_def user_save_def)
  show "\<exists>e. create_user env now fname lname uname mail pw s = (Inl e, s)"
  proof (cases "\<not> py_not mail \<and> \<not> py_not uname")
    case True
    then show ?thesis using valid by blast
  next
    case False
    then show ?thesis by (auto simp: create_user_def)
  qed
qed

lemma create_superuser_clash:
  assumes r: "r \<in> set (users s)" "pk r \<noteq> None"
    and same: "username r = uname \<or>
      email r = Some (normalize_email env (Some (normalize_email env mail)))"
  shows "\<exists>e. create_superuser env now1 now2 fname lname uname mail pw s = (Inl e, s)"
proof -
  obtain e where "create_user env now1 fname lname uname (Some (normalize_email env mail)) pw s =
      (Inl e, s)"
    using create_user_clash(1) [OF r same] by blast
  then show ?thesis by (simp add: create_superuser_def)
qed

lemma create_user_row:
  assumes c: "create_user env now fname lname uname mail pw s = (Inr u, s1)"
  shows "u \<in> set (users s1) \<and> pk u \<noteq> None \<and> username u = uname \<and>
     email u = Some (normalize_email env mail)"
proof -
  have "(Inr u, s1) = insert_user now (fresh_pk (map pk (users s)))
      (set_password env pw (model (normalize_email env mail) uname fname lname)) s"
    using create_user_Inr [OF c] by blast
  then show ?thesis
    by (auto simp: insert_user_def Let_def new_user_fields)
qed

lemma create_superuser_row:
  assumes a: "create_superuser env now1 now2 fname lname uname mail pw s = (Inr v, t)"
  shows "v \<in> set (users t) \<and> pk v \<noteq> None \<and> username v = uname \<and>
     email v = Some (normalize_email env (Some (normalize_email env mail)))"
proof -
  obtain w s1 where c: "create_user env now1 fname lname uname (Some (normalize_email env mail)) pw s =
      (Inr w, s1)"
    using a by (auto simp: create_superuser_def split: prod.splits sum.splits)
  define e where "e = w\<lparr>is_admin := True, is_active := True, is_superadmin := True,
      is_staff := True, is_superuser := True\<rparr>"
  have sv: "user_save now2 e s1 = (Inr v, t)"
    using a c by (simp add: create_superuser_def e_def)
  obtain j where w: "w \<in> set (users s1)" "pk w = Some j" "username w = uname"
      "email w = Some (normalize_email env (Some (normalize_email env mail)))"
    using create_user_row [OF c] by auto
  have ef: "pk e = Some j" "username e = uname"
      "email e = Some (normalize_email env (Some (normalize_email env mail)))"
    using w by (simp_all add: e_def)
  have mem: "Some j \<in> set (map pk (users s1))"
    using w(1,2) by (metis image_eqI list.set_map)
  have up: "update_user now2 j e s1 = (Inr v, t)"
  proof (cases rule: user_save_cases [of now2 e s1])
    case refused
    then show ?thesis using sv by simp
  next
    case (updated i)
    then show ?thesis using sv ef(1) by simp
  next
    case (inserted i)
    then show ?thesis using mem ef(1) by auto
  qed
  then have v: "v = e\<lparr>created_date := Some now2\<rparr>"
    and rows: "users t = map (\<lambda>r. if pk r = Some j then v else r) (users s1)"
    by (auto simp: update_user_def Let_def split: if_splits)
  have "(\<lambda>r. if pk r = Some j then v else r) w \<in>
      (\<lambda>r. if pk r = Some j then v else r) ` set (users s1)"
    using w(1) by (rule imageI)
  then have "v \<in> set (users t)"
    unfolding rows using w(2) by simp
  then show ?thesis using ef by (simp add: v)
qed

lemma ann_created:
  "create_user sample_env 7 ''Ann'' ''Lee'' (Some ''ann'') (Some ''ann@x.org'') None empty_store =
     (Inr ann, ann_store)"
  by (simp add: py_not_def create_user_def user_save_def unique_violation_def set_password_def
      model_def sample_env_def ann_store_def ann_def empty_store_def insert_user_def
      fresh_pk_def Let_def)

lemma ann_profile_saved:
  "profile_save 8 (blank_profile\<lparr>user := Some 1\<rparr>) ann_store =
     (Inr (blank_profile\<lparr>profile_pk := Some 1, user := Some 1, created_at := Some 8,
                          modified_at := Some 8\<rparr>),
      ann_profile_store)"
  by (simp add: profile_save_def profile_violation_def insert_profile_def fresh_pk_def Let_def
      profile_row_def stored_file_def ann_profile_def ann_profile_store_def blank_profile_def
      ann_store_def ann_def)

lemma ann_profile_store_reachable: "reachable ann_profile_store"
proof -
  have "reachable (snd (profile_save 8 (blank_profile\<lparr>user := Some 1\<rparr>) ann_store))"
    by (rule reachable.by_profile_save [OF ann_store_reachable])
  then show ?thesis by (simp only: ann_profile_saved snd_conv)
qed

lemma at_most_one:
  assumes "distinct (map f xs)" and "\<And>x y. x \<in> set xs \<Longrightarrow> y \<in> set xs \<Longrightarrow> f x = f y"
  shows "length xs \<le> 1"
proof (cases xs)
  case Nil
  then show ?thesis by simp
next
  case (Cons a ys)
  show ?thesis
  proof (cases ys)
    case Nil
    with Cons show ?thesis by simp
  next
    case (Cons b zs)
    with \<open>xs = a # ys\<close> have "f a = f b" using assms(2) by simp
    with Cons \<open>xs = a # ys\<close> assms(1) show ?thesis by simp
  qed
qed

lemma profile_save_ownerless:
  assumes "user p = None" and "profile_pk p = None \<or> created_at p \<noteq> None"
  shows "\<exists>p' s'. profile_save now p s = (Inr p', s') \<and> user p' = None \<and>
     profile_row p' \<in> set (profiles s') \<and> user (profile_row p') = None"
proof (cases rule: profile_save_cases [of p s now])
  case refused
  then show ?thesis using assms by (auto simp: profile_violation_def)
next
  case (updated k)
  define q where "q = profile_row (p\<lparr>modified_at := Some now\<rparr>)"
  obtain r where r: "r \<in> set (profiles s)" "profile_pk r = Some k"
    using updated(2) by auto
  have "(\<lambda>r. if profile_pk r = Some k then q else r) r \<in>
      (\<lambda>r. if profile_pk r = Some k then q else r) ` set (profiles s)"
    using r(1) by (rule imageI)
  then have "q \<in> set (map (\<lambda>r. if profile_pk r = Some k then q else r) (profiles s))"
    using r(2) by simp
  then show ?thesis
    using updated(4,5) assms(1)
    by (simp add: update_profile_def Let_def q_def profile_row_fields)
next
  case (inserted k)
  then show ?thesis
    using assms(1) by (simp add: insert_profile_def Let_def profile_row_fields)
qed

section \<open>Authorization predicates\<close>

text \<open>
  Claim C4. \<^verbatim>\<open>has_perms\<close> is true exactly when one of \<^verbatim>\<open>is_admin\<close>, \<^verbatim>\<open>is_superadmin\<close>,
  \<^verbatim>\<open>is_staff\<close> is set, and \<^verbatim>\<open>has_module_perms\<close> exactly when one of \<^verbatim>\<open>is_staff\<close>,
  \<^verbatim>\<open>is_admin\<close>, \<^verbatim>\<open>is_superadmin\<close> is set. Two users that agree on these three flags get
  the same answers, whatever their other fields (the role among them) and whatever the
  permission, object and application arguments are.
\<close>

theorem has_perms_flags:
  "has_perms u perms obj = (is_admin u \<or> is_superadmin u \<or> is_staff u) \<and>
   has_module_perms u app_label = (is_staff u \<or> is_admin u \<or> is_superadmin u) \<and>
   (is_admin u = is_admin v \<and> is_superadmin u = is_superadmin v \<and> is_staff u = is_staff v \<longrightarrow>
      has_perms u perms obj = has_perms v perms' obj' \<and>
      has_module_perms u app_label = has_module_perms v app_label')"
  by (simp add: has_perms_def has_module_perms_def)

text \<open>
  A user with only \<^verbatim>\<open>is_staff\<close> set passes both checks, also after the role and
  \<^verbatim>\<open>is_active\<close> are changed and with other arguments; a user with all four flags false
  passes neither.
\<close>

theorem has_perms_flags_witness:
  "has_perms (ann\<lparr>is_staff := True\<rparr>) [''accounts.add_user''] (None :: nat option) \<and>
   has_module_perms (ann\<lparr>is_staff := True\<rparr>) ''accounts'' \<and>
   has_perms (ann\<lparr>is_staff := True, role := Some CUSTOMER, is_active := True\<rparr>) [''x'']
     (Some (3::nat)) \<and>
   has_module_perms (ann\<lparr>is_staff := True, role := Some CUSTOMER, is_active := True\<rparr>) ''shop'' \<and>
   \<not> has_perms ann [''accounts.add_user''] (None :: nat option) \<and>
   \<not> has_module_perms ann ''accounts''"
proof -
  let ?staff = "ann\<lparr>is_staff := True\<rparr>"
  let ?other = "ann\<lparr>is_staff := True, role := Some CUSTOMER, is_active := True\<rparr>"
  note staff = has_perms_flags [of ?staff "[''accounts.add_user'']" "None :: nat option"
      "''accounts''" ?other "[''x'']" "Some (3::nat)" "''shop''"]
  note plain = has_perms_flags [of ann "[''accounts.add_user'']" "None :: nat option"
      "''accounts''" ann "[''accounts.add_user'']" "None :: nat option" "''accounts''"]
  have flags: "is_staff ?staff" "is_admin ?staff = is_admin ?other"
    "is_superadmin ?staff = is_superadmin ?other" "is_staff ?staff = is_staff ?other"
    "\<not> is_admin ann" "\<not> is_superadmin ann" "\<not> is_staff ann"
    by (simp_all add: ann_def)
  have 1: "has_perms ?staff [''accounts.add_user''] (None :: nat option)"
    using staff flags(1) by blast
  have 2: "has_module_perms ?staff ''accounts''"
    using staff flags(1) by blast
  have 3: "has_perms ?other [''x''] (Some (3::nat))"
    using staff flags(2-4) 1 by blast
  have 4: "has_module_perms ?other ''shop''"
    using staff flags(2-4) 2 by blast
  have 5: "\<not> has_perms ann [''accounts.add_user''] (None :: nat option)"
    using plain flags(5-7) by blast
  have 6: "\<not> has_module_perms ann ''accounts''"
    using plain flags(5-7) by blast
  show ?thesis using 1 2 3 4 5 6 by blast
qed

section \<open>Validation in \<open>create_user\<close>\<close>

text \<open>
  Claim C2. \<^verbatim>\<open>create_user\<close> raises \<^verbatim>\<open>ValueError\<close> exactly when the email or the username
  is \<^verbatim>\<open>None\<close> or empty: the email is checked first, the username second, and no other
  path raises this error. Whenever \<^verbatim>\<open>create_user\<close> fails, for whatever reason, the store
  is the one it started from.
\<close>

theorem create_user_validation:
  "((\<exists>m. fst (create_user env now fname lname uname mail pw s) = Inl (ValueError m)) =
      (py_not mail \<or> py_not uname)) \<and>
   (py_not mail \<longrightarrow>
      create_user env now fname lname uname mail pw s =
        (Inl (ValueError ''User must have an email address''), s)) \<and>
   (\<not> py_not mail \<and> py_not uname \<longrightarrow>
      create_user env now fname lname uname mail pw s =
        (Inl (ValueError ''User must have a username''), s)) \<and>
   (\<forall>e. fst (create_user env now fname lname uname mail pw s) = Inl e \<longrightarrow>
      snd (create_user env now fname lname uname mail pw s) = s)"
proof -
  have ve: "\<And>v t m. fst (user_save now v t) \<noteq> Inl (ValueError m)"
    by (simp add: user_save_def insert_user_def update_user_def Let_def split: option.splits)
  show ?thesis
    using ve by (auto simp: create_user_def dest: user_save_error_store)
qed

text \<open>
  Both checks on a store with one user: an absent and an empty email, an empty and an
  absent username, and a refused duplicate that leaves the store as it was.
\<close>

theorem create_user_validation_witness:
  "create_user sample_env 9 ''Bob'' ''Roe'' (Some ''bob'') None (Some ''pw'') ann_store =
     (Inl (ValueError ''User must have an email address''), ann_store) \<and>
   create_user sample_env 9 ''Bob'' ''Roe'' (Some ''bob'') (Some '''') (Some ''pw'') ann_store =
     (Inl (ValueError ''User must have an email address''), ann_store) \<and>
   create_user sample_env 9 ''Bob'' ''Roe'' (Some '''') (Some ''bob@x.org'') (Some ''pw'') ann_store =
     (Inl (ValueError ''User must have a username''), ann_store) \<and>
   create_user sample_env 9 ''Bob'' ''Roe'' None (Some ''bob@x.org'') (Some ''pw'') ann_store =
     (Inl (ValueError ''User must have a username''), ann_store) \<and>
   snd (create_user sample_env 9 ''Bob'' ''Roe'' (Some ''bob'') (Some ''ann@x.org'') (Some ''pw'') ann_store) =
     ann_store"
  using create_user_validation [of sample_env 9 "''Bob''" "''Roe''" "Some ''bob''" None "Some ''pw''" ann_store]
    create_user_validation [of sample_env 9 "''Bob''" "''Roe''" "Some ''bob''" "Some ''''" "Some ''pw''" ann_store]
    create_user_validation [of sample_env 9 "''Bob''" "''Roe''" "Some ''''" "Some ''bob@x.org''" "Some ''pw''" ann_store]
    create_user_validation [of sample_env 9 "''Bob''" "''Roe''" None "Some ''bob@x.org''" "Some ''pw''" ann_store]
    create_user_validation [of sample_env 9 "''Bob''" "''Roe''" "Some ''bob''" "Some ''ann@x.org''" "Some ''pw''" ann_store]
  by (simp add: py_not_def create_user_def user_save_def unique_violation_def set_password_def
      model_def sample_env_def ann_store_def ann_def)

section \<open>Creating a user\<close>

text \<open>
  Claim C1, as stated, for every input with a non-empty email and a non-empty username:
  it fails on a store that already holds the email. \<open>ann_store\<close> is the store after
  creating Ann; creating Bob with Ann's email and a username of his own is refused by
  the uniqueness constraint and writes nothing.
\<close>

theorem create_user_duplicate_counterexample:
  "ann_store =
     snd (create_user sample_env 7 ''Ann'' ''Lee'' (Some ''ann'') (Some ''ann@x.org'') None
            empty_store) \<and>
   \<not> py_not (Some ''ann@x.org'') \<and> \<not> py_not (Some ''bob'') \<and>
   create_user sample_env 9 ''Bob'' ''Roe'' (Some ''bob'') (Some ''ann@x.org'') (Some ''pw'')
     ann_store = (Inl IntegrityError, ann_store)"
  by (simp add: py_not_def create_user_def user_save_def unique_violation_def set_password_def
      model_def sample_env_def ann_store_def ann_def empty_store_def insert_user_def
      fresh_pk_def Let_def)

text \<open>
  Claim C1, amended. When the email and the username are non-empty and no stored user
  holds the username or the normalized email, \<^verbatim>\<open>create_user\<close> appends exactly one row
  to the user table in one insert. The stored user, which is also the one returned, has
  the normalized email, the given username, first name and last name, a key that no
  stored row had, and the four flags \<^verbatim>\<open>is_admin\<close>, \<^verbatim>\<open>is_active\<close>, \<^verbatim>\<open>is_superadmin\<close>,
  \<^verbatim>\<open>is_staff\<close> false.
\<close>

theorem create_user_persists:
  assumes "\<not> py_not mail" and "\<not> py_not uname"
    and "uname \<notin> set (map username (users s))"
    and "Some (normalize_email env mail) \<notin> set (map email (users s))"
  shows "\<exists>u k. create_user env now fname lname uname mail pw s =
            (Inr u, s\<lparr>users := users s @ [u], writes := writes s @ [InsertUser k]\<rparr>) \<and>
          pk u = Some k \<and> Some k \<notin> set (map pk (users s)) \<and>
          email u = Some (normalize_email env mail) \<and> username u = uname \<and>
          first_name u = fname \<and> last_name u = lname \<and>
          is_admin u = False \<and> is_active u = False \<and>
          is_superadmin u = False \<and> is_staff u = False"
proof -
  let ?k = "fresh_pk (map pk (users s))"
  let ?u = "(set_password env pw (model (normalize_email env mail) uname fname lname))
     \<lparr>pk := Some ?k, date_joined := Some now, last_login := Some now,
      modified_date := Some now, created_date := Some now\<rparr>"
  have "create_user env now fname lname uname mail pw s =
      (Inr ?u, s\<lparr>users := users s @ [?u], writes := writes s @ [InsertUser ?k]\<rparr>)"
    using create_user_free [OF assms, of now fname lname pw]
    by (simp add: insert_user_def Let_def)
  moreover have "pk ?u = Some ?k" by simp
  moreover have "Some ?k \<notin> set (map pk (users s))" by (rule fresh_pk_notin)
  moreover have "email ?u = Some (normalize_email env mail)" "username ?u = uname"
    "first_name ?u = fname" "last_name ?u = lname"
    "is_admin ?u = False" "is_active ?u = False" "is_superadmin ?u = False" "is_staff ?u = False"
    by (simp_all add: set_password_def model_def)
  ultimately show ?thesis by blast
qed

text \<open>Creating Bob with an email of his own on the store that holds Ann.\<close>

theorem create_user_persists_witness:
  "\<not> py_not (Some ''bob@x.org'') \<and> \<not> py_not (Some ''bob'') \<and>
   Some ''bob'' \<notin> set (map username (users ann_store)) \<and>
   Some (normalize_email sample_env (Some ''bob@x.org'')) \<notin> set (map email (users ann_store)) \<and>
   (\<exists>u k. create_user sample_env 9 ''Bob'' ''Roe'' (Some ''bob'') (Some ''bob@x.org'') (Some ''pw'')
             ann_store =
            (Inr u, ann_store\<lparr>users := users ann_store @ [u],
                              writes := writes ann_store @ [InsertUser k]\<rparr>) \<and>
          pk u = Some k \<and> Some k \<notin> set (map pk (users ann_store)) \<and>
          email u = Some (normalize_email sample_env (Some ''bob@x.org'')) \<and>
          username u = Some ''bob'' \<and> first_name u = ''Bob'' \<and> last_name u = ''Roe'' \<and>
          is_admin u = False \<and> is_active u = False \<and>
          is_superadmin u = False \<and> is_staff u = False)"
proof -
  have h1: "\<not> py_not (Some ''bob@x.org'')" and h2: "\<not> py_not (Some ''bob'')"
    by (simp_all add: py_not_def)
  have h3: "Some ''bob'' \<notin> set (map username (users ann_store))"
    by (simp add: ann_store_def ann_def)
  have h4: "Some (normalize_email sample_env (Some ''bob@x.org'')) \<notin>
      set (map email (users ann_store))"
    by (simp add: ann_store_def ann_def sample_env_def)
  show ?thesis
    using h1 h2 h3 h4
      create_user_persists [OF h1 h2 h3 h4, of 9 "''Bob''" "''Roe''" "Some ''pw''"]
    by blast
qed

section \<open>Creating a superuser\<close>

text \<open>
  Claim C3, as stated, for every valid input: it fails on a store that already holds the
  email. Creating the superuser Bob with Ann's email is refused by the uniqueness
  constraint: no row is written, where the claim has two writes.
\<close>

theorem create_superuser_duplicate_counterexample:
  "\<not> py_not (Some ''ann@x.org'') \<and> \<not> py_not (Some ''bob'') \<and>
   create_superuser sample_env 8 9 ''Bob'' ''Roe'' (Some ''bob'') (Some ''ann@x.org'') (Some ''pw'')
     ann_store = (Inl IntegrityError, ann_store)"
  by (simp add: py_not_def create_superuser_def create_user_def user_save_def
      unique_violation_def set_password_def model_def sample_env_def ann_store_def ann_def)

text \<open>
  Claim C3, amended. On a store that the operations can produce, when the normalized
  email and the username are non-empty and no stored user holds the username or the
  email as \<^verbatim>\<open>create_user\<close> stores it, \<^verbatim>\<open>create_superuser\<close> first has \<^verbatim>\<open>create_user\<close>
  insert the user, then updates that row: two writes in all, an insert and an update of
  one key, and the returned user, which is the stored one, has the four flags true.
  A failure of the call to \<^verbatim>\<open>create_user\<close> is the failure of \<^verbatim>\<open>create_superuser\<close>, and
  the store is unchanged. When the email or the username is empty or absent, and the
  normalization routine yields the empty string exactly on an empty or absent email,
  \<^verbatim>\<open>create_superuser\<close> fails as \<^verbatim>\<open>create_user\<close> does on the same arguments, with a
  \<^verbatim>\<open>ValueError\<close>, and nothing is persisted.
\<close>

theorem create_superuser_two_writes:
  "(reachable s \<and> normalize_email env mail \<noteq> [] \<and> \<not> py_not uname \<and>
    uname \<notin> set (map username (users s)) \<and>
    Some (normalize_email env (Some (normalize_email env mail))) \<notin> set (map email (users s)) \<longrightarrow>
      (\<exists>u u' k.
         create_user env now1 fname lname uname (Some (normalize_email env mail)) pw s =
           (Inr u, s\<lparr>users := users s @ [u], writes := writes s @ [InsertUser k]\<rparr>) \<and>
         create_superuser env now1 now2 fname lname uname mail pw s =
           (Inr u', s\<lparr>users := users s @ [u'],
                      writes := writes s @ [InsertUser k, UpdateUser k]\<rparr>) \<and>
         pk u = Some k \<and> pk u' = Some k \<and>
         is_admin u' \<and> is_active u' \<and> is_superadmin u' \<and> is_staff u')) \<and>
   (\<forall>e. fst (create_user env now1 fname lname uname (Some (normalize_email env mail)) pw s) = Inl e \<longrightarrow>
      create_superuser env now1 now2 fname lname uname mail pw s = (Inl e, s)) \<and>
   (py_not mail = (normalize_email env mail = []) \<and> (py_not mail \<or> py_not uname) \<longrightarrow>
      create_superuser env now1 now2 fname lname uname mail pw s =
        create_user env now1 fname lname uname mail pw s \<and>
      snd (create_superuser env now1 now2 fname lname uname mail pw s) = s \<and>
      (\<exists>m. fst (create_superuser env now1 now2 fname lname uname mail pw s) =
         Inl (ValueError m)))"
proof (intro conjI impI allI)
  assume a: "reachable s \<and> normalize_email env mail \<noteq> [] \<and> \<not> py_not uname \<and>
    uname \<notin> set (map username (users s)) \<and>
    Some (normalize_email env (Some (normalize_email env mail))) \<notin> set (map email (users s))"
  let ?m = "Some (normalize_email env mail)"
  have ok: "users_ok (users s)"
    using a reachable_store_ok [of s] by (simp add: store_ok_def)
  have m: "\<not> py_not ?m" using a by (simp add: py_not_def)
  from a have un: "\<not> py_not uname"
    and f1: "uname \<notin> set (map username (users s))"
    and f2: "Some (normalize_email env ?m) \<notin> set (map email (users s))"
    by blast+
  obtain u k where c: "create_user env now1 fname lname uname ?m pw s =
      (Inr u, s\<lparr>users := users s @ [u], writes := writes s @ [InsertUser k]\<rparr>)"
    using create_user_free [OF m un f1 f2, of now1 fname lname pw]
    by (auto simp: insert_user_def Let_def)
  from create_superuser_resave [OF ok c, of now2]
  obtain k' where k': "pk u = Some k'"
    "s\<lparr>users := users s @ [u], writes := writes s @ [InsertUser k]\<rparr> =
      s\<lparr>users := users s @ [u], writes := writes s @ [InsertUser k']\<rparr>"
    "create_superuser env now1 now2 fname lname uname mail pw s =
        (Inr (u\<lparr>is_admin := True, is_active := True, is_superadmin := True, is_staff := True,
                is_superuser := True, created_date := Some now2\<rparr>),
         s\<lparr>users := users s @
              [u\<lparr>is_admin := True, is_active := True, is_superadmin := True, is_staff := True,
                 is_superuser := True, created_date := Some now2\<rparr>],
           writes := writes s @ [InsertUser k', UpdateUser k']\<rparr>)"
    by blast
  have "writes (s\<lparr>users := users s @ [u], writes := writes s @ [InsertUser k]\<rparr>) =
      writes (s\<lparr>users := users s @ [u], writes := writes s @ [InsertUser k']\<rparr>)"
    using k'(2) by simp
  then have kk: "k' = k" by simp
  let ?u' = "u\<lparr>is_admin := True, is_active := True, is_superadmin := True, is_staff := True,
                is_superuser := True, created_date := Some now2\<rparr>"
  have "pk ?u' = Some k" "is_admin ?u'" "is_active ?u'" "is_superadmin ?u'" "is_staff ?u'"
    using k'(1) kk by simp_all
  then show "\<exists>u u' k.
         create_user env now1 fname lname uname (Some (normalize_email env mail)) pw s =
           (Inr u, s\<lparr>users := users s @ [u], writes := writes s @ [InsertUser k]\<rparr>) \<and>
         create_superuser env now1 now2 fname lname uname mail pw s =
           (Inr u', s\<lparr>users := users s @ [u'],
                      writes := writes s @ [InsertUser k, UpdateUser k]\<rparr>) \<and>
         pk u = Some k \<and> pk u' = Some k \<and>
         is_admin u' \<and> is_active u' \<and> is_superadmin u' \<and> is_staff u'"
    using c k'(1,3) kk by blast
next
  fix e
  assume f: "fst (create_user env now1 fname lname uname (Some (normalize_email env mail)) pw s) = Inl e"
  have "snd (create_user env now1 fname lname uname (Some (normalize_email env mail)) pw s) = s"
    using f by (auto simp: create_user_def dest: user_save_error_store split: if_splits)
  with f have "create_user env now1 fname lname uname (Some (normalize_email env mail)) pw s = (Inl e, s)"
    by (metis prod.collapse)
  then show "create_superuser env now1 now2 fname lname uname mail pw s = (Inl e, s)"
    by (simp add: create_superuser_def)
next
  assume a: "py_not mail = (normalize_email env mail = []) \<and> (py_not mail \<or> py_not uname)"
  then have same: "py_not (Some (normalize_email env mail)) = py_not mail"
    by (simp add: py_not_def)
  have inner: "create_user env now1 fname lname uname (Some (normalize_email env mail)) pw s =
      create_user env now1 fname lname uname mail pw s"
    using a same by (auto simp: create_user_def)
  have err: "create_user env now1 fname lname uname mail pw s =
      (Inl (ValueError (if py_not mail then ''User must have an email address''
                         else ''User must have a username'')), s)"
    using a by (auto simp: create_user_def)
  have sup: "create_superuser env now1 now2 fname lname uname mail pw s =
      create_user env now1 fname lname uname mail pw s"
    using inner err by (simp add: create_superuser_def)
  show "create_superuser env now1 now2 fname lname uname mail pw s =
      create_user env now1 fname lname uname mail pw s"
    by (rule sup)
  show "snd (create_superuser env now1 now2 fname lname uname mail pw s) = s"
    using sup err by simp
  show "\<exists>m. fst (create_superuser env now1 now2 fname lname uname mail pw s) = Inl (ValueError m)"
    using sup err by simp
qed

text \<open>
  Creating the superuser Bob on the store that holds Ann, then with an absent email and
  with an empty username.
\<close>

theorem create_superuser_two_writes_witness:
  "reachable ann_store \<and>
   normalize_email sample_env (Some ''bob@x.org'') \<noteq> [] \<and> \<not> py_not (Some ''bob'') \<and>
   Some ''bob'' \<notin> set (map username (users ann_store)) \<and>
   Some (normalize_email sample_env (Some (normalize_email sample_env (Some ''bob@x.org'')))) \<notin>
     set (map email (users ann_store)) \<and>
   (\<exists>u u' k.
      create_user sample_env 8 ''Bob'' ''Roe'' (Some ''bob'')
          (Some (normalize_email sample_env (Some ''bob@x.org''))) (Some ''pw'') ann_store =
        (Inr u, ann_store\<lparr>users := users ann_store @ [u],
                          writes := writes ann_store @ [InsertUser k]\<rparr>) \<and>
      create_superuser sample_env 8 9 ''Bob'' ''Roe'' (Some ''bob'') (Some ''bob@x.org'')
          (Some ''pw'') ann_store =
        (Inr u', ann_store\<lparr>users := users ann_store @ [u'],
                           writes := writes ann_store @ [InsertUser k, UpdateUser k]\<rparr>) \<and>
      pk u = Some k \<and> pk u' = Some k \<and>
      is_admin u' \<and> is_active u' \<and> is_superadmin u' \<and> is_staff u') \<and>
   py_not None \<and> normalize_email sample_env None = [] \<and>
   create_superuser sample_env 8 9 ''Bob'' ''Roe'' (Some ''bob'') None (Some ''pw'') ann_store =
     create_user sample_env 8 ''Bob'' ''Roe'' (Some ''bob'') None (Some ''pw'') ann_store \<and>
   snd (create_superuser sample_env 8 9 ''Bob'' ''Roe'' (Some ''bob'') None (Some ''pw'')
          ann_store) = ann_store \<and>
   py_not (Some []) \<and>
   create_superuser sample_env 8 9 ''Bob'' ''Roe'' (Some []) (Some ''bob@x.org'')
       (Some ''pw'') ann_store =
     create_user sample_env 8 ''Bob'' ''Roe'' (Some []) (Some ''bob@x.org'') (Some ''pw'')
       ann_store"
proof -
  have h: "reachable ann_store \<and>
      normalize_email sample_env (Some ''bob@x.org'') \<noteq> [] \<and> \<not> py_not (Some ''bob'') \<and>
      Some ''bob'' \<notin> set (map username (users ann_store)) \<and>
      Some (normalize_email sample_env (Some (normalize_email sample_env (Some ''bob@x.org'')))) \<notin>
        set (map email (users ann_store))"
    using ann_store_reachable
    by (simp add: py_not_def sample_env_def ann_store_def ann_def)
  have e1: "py_not None = (normalize_email sample_env None = []) \<and>
      (py_not None \<or> py_not (Some ''bob''))"
    and n1: "py_not None" "normalize_email sample_env None = []"
    by (simp_all add: py_not_def sample_env_def)
  have e2: "py_not (Some ''bob@x.org'') = (normalize_email sample_env (Some ''bob@x.org'') = []) \<and>
      (py_not (Some ''bob@x.org'') \<or> py_not (Some []))"
    and n2: "py_not (Some [])"
    by (simp_all add: py_not_def sample_env_def)
  note ok = create_superuser_two_writes [of ann_store sample_env "Some ''bob@x.org''" "Some ''bob''"
      8 "''Bob''" "''Roe''" "Some ''pw''" 9]
  note no_mail = create_superuser_two_writes [of ann_store sample_env None "Some ''bob''"
      8 "''Bob''" "''Roe''" "Some ''pw''" 9]
  note no_name = create_superuser_two_writes [of ann_store sample_env "Some ''bob@x.org''" "Some []"
      8 "''Bob''" "''Roe''" "Some ''pw''" 9]
  show ?thesis
    using h n1 n2 ok [THEN conjunct1, rule_format, OF h]
      no_mail [THEN conjunct2, THEN conjunct2, rule_format, OF e1]
      no_name [THEN conjunct2, THEN conjunct2, rule_format, OF e2]
    by blast
qed

section \<open>What the elevation changes\<close>

text \<open>
  Claim C9, as stated: the elevation changes the five flags and no other field of the user
  that \<^verbatim>\<open>create_user\<close> constructed. On the store that holds Ann, \<^verbatim>\<open>create_user\<close> at
  time 8 constructs \<open>bob\<close>, and \<^verbatim>\<open>create_superuser\<close> with its second save at time 9
  returns \<open>bob\<close> with the five flags set and with \<^verbatim>\<open>created_date\<close> 9, which is not \<open>bob\<close>
  with the five flags set.
\<close>

theorem create_superuser_created_date_counterexample:
  "create_user sample_env 8 ''Bob'' ''Roe'' (Some ''bob'')
       (Some (normalize_email sample_env (Some ''bob@x.org''))) (Some ''pw'') ann_store =
     (Inr bob, ann_store\<lparr>users := [ann, bob], writes := [InsertUser 1, InsertUser 2]\<rparr>) \<and>
   fst (create_superuser sample_env 8 9 ''Bob'' ''Roe'' (Some ''bob'') (Some ''bob@x.org'')
          (Some ''pw'') ann_store) =
     Inr (bob\<lparr>is_admin := True, is_active := True, is_superadmin := True, is_staff := True,
              is_superuser := True, created_date := Some 9\<rparr>) \<and>
   bob\<lparr>is_admin := True, is_active := True, is_superadmin := True, is_staff := True,
       is_superuser := True, created_date := Some 9\<rparr> \<noteq>
   bob\<lparr>is_admin := True, is_active := True, is_superadmin := True, is_staff := True,
       is_superuser := True\<rparr>"
proof -
  have "fst (create_superuser sample_env 8 9 ''Bob'' ''Roe'' (Some ''bob'') (Some ''bob@x.org'')
          (Some ''pw'') ann_store) =
     Inr (bob\<lparr>is_admin := True, is_active := True, is_superadmin := True, is_staff := True,
              is_superuser := True, created_date := Some 9\<rparr>)"
    by (simp only: bob_elevated fst_conv)
  moreover have "bob\<lparr>is_admin := True, is_active := True, is_superadmin := True, is_staff := True,
       is_superuser := True, created_date := Some 9\<rparr> \<noteq>
     bob\<lparr>is_admin := True, is_active := True, is_superadmin := True, is_staff := True,
       is_superuser := True\<rparr>"
    by (simp add: bob_def)
  ultimately show ?thesis using bob_created by blast
qed

text \<open>
  Claim C9, amended. On a store that the operations can produce, let \<open>u\<close> be the user that
  \<^verbatim>\<open>create_user\<close> constructs for \<^verbatim>\<open>create_superuser\<close>. Its \<^verbatim>\<open>is_superuser\<close> flag is false.
  \<^verbatim>\<open>create_superuser\<close> returns and stores \<open>u\<close> with the five flags \<^verbatim>\<open>is_admin\<close>,
  \<^verbatim>\<open>is_active\<close>, \<^verbatim>\<open>is_superadmin\<close>, \<^verbatim>\<open>is_staff\<close>, \<^verbatim>\<open>is_superuser\<close> true and with
  \<^verbatim>\<open>created_date\<close> set to the time of the second save; every other field is the one of \<open>u\<close>.
\<close>

theorem create_superuser_elevation_frame:
  assumes "reachable s"
    and "create_user env now1 fname lname uname (Some (normalize_email env mail)) pw s =
        (Inr u, s1)"
  shows "is_superuser u = False \<and>
     (\<exists>k. pk u = Some k \<and>
        create_superuser env now1 now2 fname lname uname mail pw s =
          (Inr (u\<lparr>is_admin := True, is_active := True, is_superadmin := True, is_staff := True,
                  is_superuser := True, created_date := Some now2\<rparr>),
           s\<lparr>users := users s @
                [u\<lparr>is_admin := True, is_active := True, is_superadmin := True,
                   is_staff := True, is_superuser := True, created_date := Some now2\<rparr>],
             writes := writes s @ [InsertUser k, UpdateUser k]\<rparr>))"
proof -
  have ok: "users_ok (users s)"
    using reachable_store_ok [OF assms(1)] by (simp add: store_ok_def)
  have "(Inr u, s1) = insert_user now1 (fresh_pk (map pk (users s)))
        (set_password env pw
           (model (normalize_email env (Some (normalize_email env mail))) uname fname lname)) s"
    using create_user_Inr [OF assms(2)] by blast
  then have "is_superuser u = False"
    by (simp add: insert_user_def Let_def set_password_def model_def)
  then show ?thesis
    using create_superuser_resave [OF ok assms(2), of now2] by blast
qed

text \<open>The superuser Bob on the store that holds Ann.\<close>

theorem create_superuser_elevation_frame_witness:
  "reachable ann_store \<and>
   create_user sample_env 8 ''Bob'' ''Roe'' (Some ''bob'')
       (Some (normalize_email sample_env (Some ''bob@x.org''))) (Some ''pw'') ann_store =
     (Inr bob, ann_store\<lparr>users := [ann, bob], writes := [InsertUser 1, InsertUser 2]\<rparr>) \<and>
   is_superuser bob = False \<and>
   (\<exists>k. pk bob = Some k \<and>
      create_superuser sample_env 8 9 ''Bob'' ''Roe'' (Some ''bob'') (Some ''bob@x.org'')
          (Some ''pw'') ann_store =
        (Inr (bob\<lparr>is_admin := True, is_active := True, is_superadmin := True, is_staff := True,
                is_superuser := True, created_date := Some 9\<rparr>),
         ann_store\<lparr>users := users ann_store @
              [bob\<lparr>is_admin := True, is_active := True, is_superadmin := True,
                 is_staff := True, is_superuser := True, created_date := Some 9\<rparr>],
           writes := writes ann_store @ [InsertUser k, UpdateUser k]\<rparr>))"
  using ann_store_reachable bob_created
    create_superuser_elevation_frame [OF ann_store_reachable bob_created, of 9]
  by blast

section \<open>Timestamps\<close>

text \<open>
  Claim C6. A save of a user whose row is stored leaves \<^verbatim>\<open>date_joined\<close>, \<^verbatim>\<open>last_login\<close> and
  \<^verbatim>\<open>modified_date\<close> as the instance has them and sets \<^verbatim>\<open>created_date\<close> to the time of the
  save; the row stored under the key afterwards is the saved instance. A save that
  inserts (no key, or a key with no row) sets all four to the time of the save. The
  user that \<^verbatim>\<open>create_superuser\<close> returns and stores has the first three at the time of the
  first save and \<^verbatim>\<open>created_date\<close> at the time of the second.
\<close>

theorem timestamps_on_save:
  "(user_save now u s = (Inr u', s') \<and> pk u = Some k \<and> get_user s k = Some r \<longrightarrow>
      get_user s' k = Some u' \<and>
      date_joined u' = date_joined u \<and> last_login u' = last_login u \<and>
      modified_date u' = modified_date u \<and> created_date u' = Some now) \<and>
   (user_save now u s = (Inr u', s') \<and> (pk u = None \<or> (pk u = Some k \<and> get_user s k = None)) \<longrightarrow>
      u' \<in> set (users s') \<and>
      date_joined u' = Some now \<and> last_login u' = Some now \<and>
      modified_date u' = Some now \<and> created_date u' = Some now) \<and>
   (create_superuser env now1 now2 fname lname uname mail pw s = (Inr v, t) \<longrightarrow>
      v \<in> set (users t) \<and>
      date_joined v = Some now1 \<and> last_login v = Some now1 \<and>
      modified_date v = Some now1 \<and> created_date v = Some now2)"
proof (rule conjI [OF impI conjI [OF impI impI]])
  assume a: "user_save now u s = (Inr u', s') \<and> pk u = Some k \<and> get_user s k = Some r"
  then have mem: "Some k \<in> set (map pk (users s))"
    using get_user_stored [of s k] by simp
  have sv: "update_user now k u s = (Inr u', s')"
  proof (cases rule: user_save_cases [of now u s])
    case refused
    then show ?thesis using a by simp
  next
    case (updated j)
    then show ?thesis using a by simp
  next
    case (inserted j)
    then show ?thesis using a mem by auto
  qed
  then have u': "u' = u\<lparr>created_date := Some now\<rparr>"
    and rows: "users s' = map (\<lambda>r. if pk r = Some k then u' else r) (users s)"
    by (auto simp: update_user_def Let_def split: if_splits)
  have "pk u' = Some k" using a u' by simp
  then have "find (\<lambda>r. pk r = Some k) (users s') = Some u'"
    unfolding rows using a by (intro find_update [of k "users s" r]) (simp add: get_user_def)
  then show "get_user s' k = Some u' \<and>
      date_joined u' = date_joined u \<and> last_login u' = last_login u \<and>
      modified_date u' = modified_date u \<and> created_date u' = Some now"
    by (simp add: get_user_def u')
next
  assume a: "user_save now u s = (Inr u', s') \<and>
      (pk u = None \<or> (pk u = Some k \<and> get_user s k = None))"
  then have new: "pk u = None \<or> (pk u = Some k \<and> Some k \<notin> set (map pk (users s)))"
    using get_user_stored [of s k] by auto
  have "\<exists>j. insert_user now j u s = (Inr u', s')"
  proof (cases rule: user_save_cases [of now u s])
    case refused
    then show ?thesis using a by simp
  next
    case (updated j)
    then show ?thesis using new by auto
  next
    case (inserted j)
    then show ?thesis using a by auto
  qed
  then obtain j where "insert_user now j u s = (Inr u', s')" by blast
  then show "u' \<in> set (users s') \<and>
      date_joined u' = Some now \<and> last_login u' = Some now \<and>
      modified_date u' = Some now \<and> created_date u' = Some now"
    by (auto simp: insert_user_def Let_def)
next
  assume a: "create_superuser env now1 now2 fname lname uname mail pw s = (Inr v, t)"
  obtain w s1 where c: "create_user env now1 fname lname uname (Some (normalize_email env mail)) pw s =
      (Inr w, s1)"
    using a by (auto simp: create_superuser_def split: prod.splits sum.splits)
  define e where "e = w\<lparr>is_admin := True, is_active := True, is_superadmin := True,
      is_staff := True, is_superuser := True\<rparr>"
  have sv: "user_save now2 e s1 = (Inr v, t)"
    using a c by (simp add: create_superuser_def e_def)
  have "(Inr w, s1) = insert_user now1 (fresh_pk (map pk (users s)))
        (set_password env pw
           (model (normalize_email env (Some (normalize_email env mail))) uname fname lname)) s"
    using create_user_Inr [OF c] by blast
  then obtain j where w: "pk w = Some j" "date_joined w = Some now1" "last_login w = Some now1"
      "modified_date w = Some now1" and rows1: "users s1 = users s @ [w]"
    by (auto simp: insert_user_def Let_def)
  have ef: "pk e = Some j" "date_joined e = Some now1" "last_login e = Some now1"
      "modified_date e = Some now1"
    using w by (simp_all add: e_def)
  have mem: "Some j \<in> set (map pk (users s1))"
    using w(1) by (simp add: rows1)
  have up: "update_user now2 j e s1 = (Inr v, t)"
  proof (cases rule: user_save_cases [of now2 e s1])
    case refused
    then show ?thesis using sv by simp
  next
    case (updated i)
    then show ?thesis using sv ef(1) by simp
  next
    case (inserted i)
    then show ?thesis using mem ef(1) by auto
  qed
  then have v: "v = e\<lparr>created_date := Some now2\<rparr>"
    and rows: "users t = map (\<lambda>r. if pk r = Some j then v else r) (users s1)"
    by (auto simp: update_user_def Let_def split: if_splits)
  have "v \<in> set (users t)"
    unfolding rows rows1 using w(1) by simp
  then show "v \<in> set (users t) \<and>
      date_joined v = Some now1 \<and> last_login v = Some now1 \<and>
      modified_date v = Some now1 \<and> created_date v = Some now2"
    using ef by (simp add: v)
qed

text \<open>
  Saving Ann again at time 9 with \<^verbatim>\<open>is_staff\<close> set: the three timestamps stay at 7 and
  \<^verbatim>\<open>created_date\<close> becomes 9. Inserting Bob at time 8 sets all four to 8, and his
  elevation at time 9 moves \<^verbatim>\<open>created_date\<close> only.
\<close>

theorem timestamps_on_save_witness:
  "user_save 9 (ann\<lparr>is_staff := True\<rparr>) ann_store =
     (Inr (ann\<lparr>is_staff := True, created_date := Some 9\<rparr>),
      ann_store\<lparr>users := [ann\<lparr>is_staff := True, created_date := Some 9\<rparr>],
                writes := [InsertUser 1, UpdateUser 1]\<rparr>) \<and>
   pk (ann\<lparr>is_staff := True\<rparr>) = Some 1 \<and> get_user ann_store 1 = Some ann \<and>
   get_user (ann_store\<lparr>users := [ann\<lparr>is_staff := True, created_date := Some 9\<rparr>],
                        writes := [InsertUser 1, UpdateUser 1]\<rparr>) 1 =
     Some (ann\<lparr>is_staff := True, created_date := Some 9\<rparr>) \<and>
   date_joined (ann\<lparr>is_staff := True, created_date := Some 9\<rparr>) = Some 7 \<and>
   last_login (ann\<lparr>is_staff := True, created_date := Some 9\<rparr>) = Some 7 \<and>
   modified_date (ann\<lparr>is_staff := True, created_date := Some 9\<rparr>) = Some 7 \<and>
   created_date (ann\<lparr>is_staff := True, created_date := Some 9\<rparr>) = Some 9 \<and>
   user_save 8 (bob\<lparr>pk := None\<rparr>) ann_store =
     (Inr bob, ann_store\<lparr>users := [ann, bob], writes := [InsertUser 1, InsertUser 2]\<rparr>) \<and>
   pk (bob\<lparr>pk := None\<rparr>) = None \<and>
   bob \<in> set (users (ann_store\<lparr>users := [ann, bob], writes := [InsertUser 1, InsertUser 2]\<rparr>)) \<and>
   date_joined bob = Some 8 \<and> last_login bob = Some 8 \<and>
   modified_date bob = Some 8 \<and> created_date bob = Some 8 \<and>
   date_joined (bob\<lparr>is_admin := True, is_active := True, is_superadmin := True,
       is_staff := True, is_superuser := True, created_date := Some 9\<rparr>) = Some 8 \<and>
   last_login (bob\<lparr>is_admin := True, is_active := True, is_superadmin := True,
       is_staff := True, is_superuser := True, created_date := Some 9\<rparr>) = Some 8 \<and>
   modified_date (bob\<lparr>is_admin := True, is_active := True, is_superadmin := True,
       is_staff := True, is_superuser := True, created_date := Some 9\<rparr>) = Some 8 \<and>
   created_date (bob\<lparr>is_admin := True, is_active := True, is_superadmin := True,
       is_staff := True, is_superuser := True, created_date := Some 9\<rparr>) = Some 9"
proof -
  let ?staff = "ann\<lparr>is_staff := True\<rparr>"
  let ?staff' = "ann\<lparr>is_staff := True, created_date := Some 9\<rparr>"
  let ?s' = "ann_store\<lparr>users := [?staff'], writes := [InsertUser 1, UpdateUser 1]\<rparr>"
  let ?t = "ann_store\<lparr>users := [ann, bob], writes := [InsertUser 1, InsertUser 2]\<rparr>"
  let ?bob' = "bob\<lparr>is_admin := True, is_active := True, is_superadmin := True,
       is_staff := True, is_superuser := True, created_date := Some 9\<rparr>"
  have h1: "user_save 9 ?staff ann_store = (Inr ?staff', ?s') \<and> pk ?staff = Some 1 \<and>
      get_user ann_store 1 = Some ann"
    using ann_resaved by (simp add: get_user_def ann_store_def ann_def)
  have old: "date_joined ?staff = Some 7" "last_login ?staff = Some 7"
    "modified_date ?staff = Some 7"
    by (simp_all add: ann_def)
  have h2: "user_save 8 (bob\<lparr>pk := None\<rparr>) ann_store = (Inr bob, ?t) \<and>
      (pk (bob\<lparr>pk := None\<rparr>) = None \<or>
       (pk (bob\<lparr>pk := None\<rparr>) = Some 0 \<and> get_user ann_store 0 = None))"
    by (simp add: user_save_def unique_violation_def insert_user_def ann_store_def ann_def
        bob_def fresh_pk_def Let_def)
  note updated = timestamps_on_save [THEN conjunct1, rule_format, OF h1]
  note inserted = timestamps_on_save [THEN conjunct2, THEN conjunct1, rule_format, OF h2]
  note elevated = timestamps_on_save [THEN conjunct2, THEN conjunct2, rule_format, OF bob_elevated]
  have "pk (bob\<lparr>pk := None\<rparr>) = None" by simp
  then show ?thesis
    using h1 h2 old updated inserted elevated by simp
qed

section \<open>The password\<close>

text \<open>
  Claim C8. Let the environment meet the credential contract. The user that
  \<^verbatim>\<open>create_user\<close> stores for a given password carries in the \<^verbatim>\<open>password\<close> column the value
  of the hashing transform on it, which is not the given password and is a usable
  credential. With no password given (\<^verbatim>\<open>None\<close>) the stored user has no usable credential.
  No other field holds the password: the outcome for one password is the outcome for any
  other with the \<^verbatim>\<open>password\<close> column replaced by the transform's value, and two passwords
  with the same value give the same result and the same store.
\<close>

theorem password_stored_hashed:
  assumes "credential_contract env usable"
  shows "(create_user env now fname lname uname mail (Some raw) s = (Inr u, s') \<longrightarrow>
      u \<in> set (users s') \<and> password u = make_password env (Some raw) \<and>
      password u \<noteq> raw \<and> has_usable_password usable u) \<and>
   (create_user env now fname lname uname mail None s = (Inr u, s') \<longrightarrow>
      u \<in> set (users s') \<and> password u = make_password env None \<and>
      \<not> has_usable_password usable u) \<and>
   fst (create_user env now fname lname uname mail pw s) =
     map_sum id (\<lambda>v. v\<lparr>password := make_password env pw\<rparr>)
       (fst (create_user env now fname lname uname mail pw' s)) \<and>
   (make_password env pw = make_password env pw' \<longrightarrow>
      create_user env now fname lname uname mail pw s =
      create_user env now fname lname uname mail pw' s)"
proof -
  have hashed: "make_password env (Some r) \<noteq> r" "usable (make_password env (Some r))"
    and marker: "\<not> usable (make_password env None)" for r
    using assms unfolding credential_contract_def by blast+
  have stored: "password v = make_password env q \<and> v \<in> set (users t)"
    if c: "create_user env now fname lname uname mail q s = (Inr v, t)" for q v t
  proof -
    have "(Inr v, t) = insert_user now (fresh_pk (map pk (users s)))
        (set_password env q (model (normalize_email env mail) uname fname lname)) s"
      using create_user_Inr [OF c] by blast
    then show ?thesis
      by (auto simp: insert_user_def Let_def set_password_def)
  qed
  have given: "u \<in> set (users s') \<and> password u = make_password env (Some raw) \<and>
      password u \<noteq> raw \<and> has_usable_password usable u"
    if "create_user env now fname lname uname mail (Some raw) s = (Inr u, s')"
    using stored [OF that] hashed [of raw] by (simp add: has_usable_password_def)
  have omitted: "u \<in> set (users s') \<and> password u = make_password env None \<and>
      \<not> has_usable_password usable u"
    if "create_user env now fname lname uname mail None s = (Inr u, s')"
    using stored [OF that] marker by (simp add: has_usable_password_def)
  have same: "create_user env now fname lname uname mail pw s =
      create_user env now fname lname uname mail pw' s"
    if "make_password env pw = make_password env pw'"
    using that by (simp add: create_user_def set_password_def)
  have frame: "fst (create_user env now fname lname uname mail pw s) =
     map_sum id (\<lambda>v. v\<lparr>password := make_password env pw\<rparr>)
       (fst (create_user env now fname lname uname mail pw' s))"
  proof (cases "py_not mail \<or> py_not uname")
    case True
    then show ?thesis by (auto simp: create_user_def)
  next
    case False
    let ?m = "model (normalize_email env mail) uname fname lname"
    have "set_password env pw ?m = (set_password env pw' ?m)\<lparr>password := make_password env pw\<rparr>"
      by (simp add: set_password_def)
    then have "fst (user_save now (set_password env pw ?m) s) =
        map_sum id (\<lambda>v. v\<lparr>password := make_password env pw\<rparr>)
          (fst (user_save now (set_password env pw' ?m) s))"
      using user_save_password [where u = "set_password env pw' ?m"
          and h = "make_password env pw" and now = now and s = s]
      by simp
    then show ?thesis using False by (simp add: create_user_def)
  qed
  show ?thesis using given omitted same frame by blast
qed

text \<open>
  In the sample environment, which meets the contract: Bob created with the password
  \<^verbatim>\<open>pw\<close> has a usable credential that is not \<^verbatim>\<open>pw\<close>, Ann created without password has
  none, and Bob created without password is Bob with the value for \<^verbatim>\<open>None\<close> as password.
\<close>

theorem password_stored_hashed_witness:
  "credential_contract sample_env sample_usable \<and>
   create_user sample_env 8 ''Bob'' ''Roe'' (Some ''bob'')
       (Some (normalize_email sample_env (Some ''bob@x.org''))) (Some ''pw'') ann_store =
     (Inr bob, ann_store\<lparr>users := [ann, bob], writes := [InsertUser 1, InsertUser 2]\<rparr>) \<and>
   bob \<in> set (users (ann_store\<lparr>users := [ann, bob], writes := [InsertUser 1, InsertUser 2]\<rparr>)) \<and>
   password bob = make_password sample_env (Some ''pw'') \<and> password bob \<noteq> ''pw'' \<and>
   has_usable_password sample_usable bob \<and>
   create_user sample_env 7 ''Ann'' ''Lee'' (Some ''ann'') (Some ''ann@x.org'') None empty_store =
     (Inr ann, ann_store) \<and>
   ann \<in> set (users ann_store) \<and> password ann = make_password sample_env None \<and>
   \<not> has_usable_password sample_usable ann \<and>
   fst (create_user sample_env 8 ''Bob'' ''Roe'' (Some ''bob'') (Some ''bob@x.org'') None ann_store) =
     Inr (bob\<lparr>password := make_password sample_env None\<rparr>)"
proof -
  note a = ann_created
  note b = bob_created
  have n: "normalize_email sample_env (Some ''bob@x.org'') = ''bob@x.org''"
    by (simp add: sample_env_def)
  note given = password_stored_hashed [OF sample_contract, THEN conjunct1, rule_format, OF b]
  note omitted = password_stored_hashed [OF sample_contract, THEN conjunct2, THEN conjunct1,
      rule_format, OF a]
  note frame = password_stored_hashed [OF sample_contract,
      where now = 8 and fname = "''Bob''" and lname = "''Roe''" and uname = "Some ''bob''"
        and mail = "Some ''bob@x.org''" and pw = None and s = ann_store and pw' = "Some ''pw''",
      THEN conjunct2, THEN conjunct2, THEN conjunct1]
  have "fst (create_user sample_env 8 ''Bob'' ''Roe'' (Some ''bob'') (Some ''bob@x.org'') None
      ann_store) = Inr (bob\<lparr>password := make_password sample_env None\<rparr>)"
    using frame b by (simp add: n)
  then show ?thesis using sample_contract a b given omitted by blast
qed

section \<open>Uniqueness of email and username\<close>

text \<open>
  Claim C5. In every store that the operations can produce, no two users share an email
  or a username, and no user has a null email or username. After a successful
  \<^verbatim>\<open>create_user\<close>, a second \<^verbatim>\<open>create_user\<close> with the same email or the same username
  fails and leaves the store as it was, with the uniqueness error when its arguments
  pass the validation; the same holds for two calls of \<^verbatim>\<open>create_superuser\<close>, and for one
  call of each kind when normalizing the email twice gives what normalizing it once
  gives.
\<close>

theorem unique_email_username:
  "(reachable s \<longrightarrow>
      distinct (map email (users s)) \<and> distinct (map username (users s)) \<and>
      (\<forall>r \<in> set (users s). email r \<noteq> None \<and> username r \<noteq> None)) \<and>
   (create_user env now1 fname1 lname1 uname1 mail1 pw1 s = (Inr u1, s1) \<and>
    (mail2 = mail1 \<or> uname2 = uname1) \<longrightarrow>
      (\<exists>e. create_user env now2 fname2 lname2 uname2 mail2 pw2 s1 = (Inl e, s1)) \<and>
      (\<not> py_not mail2 \<and> \<not> py_not uname2 \<longrightarrow>
         create_user env now2 fname2 lname2 uname2 mail2 pw2 s1 = (Inl IntegrityError, s1))) \<and>
   (create_superuser env now1 now1' fname1 lname1 uname1 mail1 pw1 s = (Inr u1, s1) \<and>
    (mail2 = mail1 \<or> uname2 = uname1) \<longrightarrow>
      (\<exists>e. create_superuser env now2 now2' fname2 lname2 uname2 mail2 pw2 s1 = (Inl e, s1))) \<and>
   (normalize_email env (Some (normalize_email env mail1)) = normalize_email env mail1 \<and>
    (mail2 = mail1 \<or> uname2 = uname1) \<longrightarrow>
      (create_user env now1 fname1 lname1 uname1 mail1 pw1 s = (Inr u1, s1) \<longrightarrow>
         (\<exists>e. create_superuser env now2 now2' fname2 lname2 uname2 mail2 pw2 s1 = (Inl e, s1))) \<and>
      (create_superuser env now1 now1' fname1 lname1 uname1 mail1 pw1 s = (Inr u1, s1) \<longrightarrow>
         (\<exists>e. create_user env now2 fname2 lname2 uname2 mail2 pw2 s1 = (Inl e, s1))))"
proof -
  have inv: "distinct (map email (users s)) \<and> distinct (map username (users s)) \<and>
      (\<forall>r \<in> set (users s). email r \<noteq> None \<and> username r \<noteq> None)"
    if r: "reachable s"
  proof -
    have ok: "users_ok (users s)"
      using reachable_store_ok [OF r] by (simp add: store_ok_def)
    have "\<forall>r \<in> set (users s). email r \<noteq> None \<and> username r \<noteq> None"
      using ok unfolding users_ok_def by blast
    then show ?thesis using users_ok_distinct [OF ok] by blast
  qed
  have uu: "(\<exists>e. create_user env now2 fname2 lname2 uname2 mail2 pw2 s1 = (Inl e, s1)) \<and>
      (\<not> py_not mail2 \<and> \<not> py_not uname2 \<longrightarrow>
         create_user env now2 fname2 lname2 uname2 mail2 pw2 s1 = (Inl IntegrityError, s1))"
    if a: "create_user env now1 fname1 lname1 uname1 mail1 pw1 s = (Inr u1, s1) \<and>
      (mail2 = mail1 \<or> uname2 = uname1)"
  proof -
    have row: "u1 \<in> set (users s1)" "pk u1 \<noteq> None"
      and same: "username u1 = uname2 \<or> email u1 = Some (normalize_email env mail2)"
      using a create_user_row [of env now1 fname1 lname1 uname1 mail1 pw1 s u1 s1] by auto
    show ?thesis
      using create_user_clash [OF row same, of now2 fname2 lname2 pw2] by blast
  qed
  have ss: "\<exists>e. create_superuser env now2 now2' fname2 lname2 uname2 mail2 pw2 s1 = (Inl e, s1)"
    if a: "create_superuser env now1 now1' fname1 lname1 uname1 mail1 pw1 s = (Inr u1, s1) \<and>
      (mail2 = mail1 \<or> uname2 = uname1)"
  proof -
    have row: "u1 \<in> set (users s1)" "pk u1 \<noteq> None"
      and same: "username u1 = uname2 \<or>
        email u1 = Some (normalize_email env (Some (normalize_email env mail2)))"
      using a create_superuser_row [of env now1 now1' fname1 lname1 uname1 mail1 pw1 s u1 s1]
      by auto
    show ?thesis
      by (rule create_superuser_clash [OF row same])
  qed
  have us: "\<exists>e. create_superuser env now2 now2' fname2 lname2 uname2 mail2 pw2 s1 = (Inl e, s1)"
    if idem: "normalize_email env (Some (normalize_email env mail1)) = normalize_email env mail1"
      and sh: "mail2 = mail1 \<or> uname2 = uname1"
      and c: "create_user env now1 fname1 lname1 uname1 mail1 pw1 s = (Inr u1, s1)"
  proof -
    have row: "u1 \<in> set (users s1)" "pk u1 \<noteq> None"
      and same: "username u1 = uname2 \<or>
        email u1 = Some (normalize_email env (Some (normalize_email env mail2)))"
      using idem sh create_user_row [OF c] by auto
    show ?thesis
      by (rule create_superuser_clash [OF row same])
  qed
  have su: "\<exists>e. create_user env now2 fname2 lname2 uname2 mail2 pw2 s1 = (Inl e, s1)"
    if idem: "normalize_email env (Some (normalize_email env mail1)) = normalize_email env mail1"
      and sh: "mail2 = mail1 \<or> uname2 = uname1"
      and c: "create_superuser env now1 now1' fname1 lname1 uname1 mail1 pw1 s = (Inr u1, s1)"
  proof -
    have row: "u1 \<in> set (users s1)" "pk u1 \<noteq> None"
      and same: "username u1 = uname2 \<or> email u1 = Some (normalize_email env mail2)"
      using idem sh create_superuser_row [OF c] by auto
    show ?thesis
      by (rule create_user_clash(1) [OF row same])
  qed
  show ?thesis using inv uu ss us su by blast
qed

text \<open>
  The store that holds Ann and Bob, and after Ann's creation a second user with her
  email, a second user with her username, and a superuser with her email.
\<close>

theorem unique_email_username_witness:
  "reachable (ann_store\<lparr>users := [ann, bob], writes := [InsertUser 1, InsertUser 2]\<rparr>) \<and>
   distinct (map email [ann, bob]) \<and> distinct (map username [ann, bob]) \<and>
   email ann \<noteq> None \<and> username ann \<noteq> None \<and> email bob \<noteq> None \<and> username bob \<noteq> None \<and>
   create_user sample_env 7 ''Ann'' ''Lee'' (Some ''ann'') (Some ''ann@x.org'') None empty_store =
     (Inr ann, ann_store) \<and>
   \<not> py_not (Some ''ann@x.org'') \<and> \<not> py_not (Some ''bob'') \<and>
   create_user sample_env 9 ''Bob'' ''Roe'' (Some ''bob'') (Some ''ann@x.org'') (Some ''pw'')
     ann_store = (Inl IntegrityError, ann_store) \<and>
   \<not> py_not (Some ''bob@x.org'') \<and> \<not> py_not (Some ''ann'') \<and>
   create_user sample_env 9 ''Bob'' ''Roe'' (Some ''ann'') (Some ''bob@x.org'') (Some ''pw'')
     ann_store = (Inl IntegrityError, ann_store) \<and>
   normalize_email sample_env (Some (normalize_email sample_env (Some ''ann@x.org''))) =
     normalize_email sample_env (Some ''ann@x.org'') \<and>
   (\<exists>e. create_superuser sample_env 9 10 ''Bob'' ''Roe'' (Some ''bob'') (Some ''ann@x.org'')
          (Some ''pw'') ann_store = (Inl e, ann_store))"
proof -
  let ?t = "ann_store\<lparr>users := [ann, bob], writes := [InsertUser 1, InsertUser 2]\<rparr>"
  have "reachable (snd (create_user sample_env 8 ''Bob'' ''Roe'' (Some ''bob'')
       (Some (normalize_email sample_env (Some ''bob@x.org''))) (Some ''pw'') ann_store))"
    by (rule reachable.by_create_user [OF ann_store_reachable])
  then have r: "reachable ?t" by (simp only: bob_created snd_conv)
  have v: "\<not> py_not (Some ''ann@x.org'')" "\<not> py_not (Some ''bob'')"
    "\<not> py_not (Some ''bob@x.org'')" "\<not> py_not (Some ''ann'')"
    by (simp_all add: py_not_def)
  have idem: "normalize_email sample_env (Some (normalize_email sample_env (Some ''ann@x.org''))) =
     normalize_email sample_env (Some ''ann@x.org'')"
    by (simp add: sample_env_def)
  have rows: "users ?t = [ann, bob]" by simp
  note inv = unique_email_username [where s = ?t, THEN conjunct1, rule_format, OF r]
  have same_mail: "create_user sample_env 7 ''Ann'' ''Lee'' (Some ''ann'') (Some ''ann@x.org'') None
      empty_store = (Inr ann, ann_store) \<and>
    (Some ''ann@x.org'' = Some ''ann@x.org'' \<or> Some ''bob'' = Some ''ann'')"
    using ann_created by simp
  have same_name: "create_user sample_env 7 ''Ann'' ''Lee'' (Some ''ann'') (Some ''ann@x.org'') None
      empty_store = (Inr ann, ann_store) \<and>
    (Some ''bob@x.org'' = Some ''ann@x.org'' \<or> Some ''ann'' = Some ''ann'')"
    using ann_created by simp
  have idem_mail: "normalize_email sample_env (Some (normalize_email sample_env (Some ''ann@x.org''))) =
      normalize_email sample_env (Some ''ann@x.org'') \<and>
    (Some ''ann@x.org'' = Some ''ann@x.org'' \<or> Some ''bob'' = Some ''ann'')"
    using idem by simp
  note second_mail = unique_email_username [where ?mail2.0 = "Some ''ann@x.org''"
      and ?uname2.0 = "Some ''bob''" and ?now2.0 = 9 and ?fname2.0 = "''Bob''"
      and ?lname2.0 = "''Roe''" and ?pw2.0 = "Some ''pw''",
      THEN conjunct2, THEN conjunct1, rule_format, OF same_mail, THEN conjunct2, rule_format]
  note second_name = unique_email_username [where ?mail2.0 = "Some ''bob@x.org''"
      and ?uname2.0 = "Some ''ann''" and ?now2.0 = 9 and ?fname2.0 = "''Bob''"
      and ?lname2.0 = "''Roe''" and ?pw2.0 = "Some ''pw''",
      THEN conjunct2, THEN conjunct1, rule_format, OF same_name, THEN conjunct2, rule_format]
  note second_super = unique_email_username [where ?mail2.0 = "Some ''ann@x.org''"
      and ?uname2.0 = "Some ''bob''" and ?now2.0 = 9 and ?now2' = 10 and ?fname2.0 = "''Bob''"
      and ?lname2.0 = "''Roe''" and ?pw2.0 = "Some ''pw''",
      THEN conjunct2, THEN conjunct2, THEN conjunct2, rule_format, OF idem_mail,
      THEN conjunct1, rule_format, OF ann_created]
  have 1: "create_user sample_env 9 ''Bob'' ''Roe'' (Some ''bob'') (Some ''ann@x.org'') (Some ''pw'')
     ann_store = (Inl IntegrityError, ann_store)"
    using second_mail v by blast
  have 2: "create_user sample_env 9 ''Bob'' ''Roe'' (Some ''ann'') (Some ''bob@x.org'') (Some ''pw'')
     ann_store = (Inl IntegrityError, ann_store)"
    using second_name v by blast
  have 3: "distinct (map email [ann, bob]) \<and> distinct (map username [ann, bob]) \<and>
     email ann \<noteq> None \<and> username ann \<noteq> None \<and> email bob \<noteq> None \<and> username bob \<noteq> None"
    using inv unfolding rows by simp
  show ?thesis using r v idem ann_created 1 2 3 second_super by blast
qed

section \<open>Deleting a user\<close>

text \<open>
  Claim C7. Deleting a user that has a key succeeds, and afterwards no user is stored
  under that key and no profile refers to it; all other users and profiles are kept.
  When no profile refers to the user, the deletion succeeds as well and the profiles are
  unchanged. In every store that the operations can produce, every user has at most one
  profile.
\<close>

theorem cascade_delete:
  "(pk u = Some k \<longrightarrow>
      (\<exists>n. fst (user_delete u s) = Inr n) \<and>
      get_user (snd (user_delete u s)) k = None \<and>
      (\<forall>p \<in> set (profiles (snd (user_delete u s))). user p \<noteq> Some k) \<and>
      users (snd (user_delete u s)) = filter (\<lambda>r. pk r \<noteq> Some k) (users s) \<and>
      profiles (snd (user_delete u s)) = filter (\<lambda>p. user p \<noteq> Some k) (profiles s)) \<and>
   (pk u = Some k \<and> (\<forall>p \<in> set (profiles s). user p \<noteq> Some k) \<longrightarrow>
      (\<exists>n. fst (user_delete u s) = Inr n) \<and>
      profiles (snd (user_delete u s)) = profiles s) \<and>
   (reachable s \<longrightarrow>
      (\<forall>r \<in> set (users s). length (filter (\<lambda>p. user p = pk r) (profiles s)) \<le> 1))"
proof -
  have del: "(\<exists>n. fst (user_delete u s) = Inr n) \<and>
      get_user (snd (user_delete u s)) k = None \<and>
      (\<forall>p \<in> set (profiles (snd (user_delete u s))). user p \<noteq> Some k) \<and>
      users (snd (user_delete u s)) = filter (\<lambda>r. pk r \<noteq> Some k) (users s) \<and>
      profiles (snd (user_delete u s)) = filter (\<lambda>p. user p \<noteq> Some k) (profiles s)"
    if k: "pk u = Some k"
  proof -
    note rows = user_delete_rows [OF k, of s]
    have "\<exists>n. fst (user_delete u s) = Inr n"
      using k by (simp add: user_delete_def Let_def)
    moreover have "get_user (snd (user_delete u s)) k = None"
      unfolding get_user_def rows find_None_iff by simp
    moreover have "\<forall>p \<in> set (profiles (snd (user_delete u s))). user p \<noteq> Some k"
      unfolding rows by simp
    ultimately show ?thesis using rows by blast
  qed
  have none: "(\<exists>n. fst (user_delete u s) = Inr n) \<and>
      profiles (snd (user_delete u s)) = profiles s"
    if a: "pk u = Some k \<and> (\<forall>p \<in> set (profiles s). user p \<noteq> Some k)"
  proof -
    have "filter (\<lambda>p. user p \<noteq> Some k) (profiles s) = profiles s"
      using a by (simp add: filter_id_conv)
    then show ?thesis using a del by simp
  qed
  have one: "\<forall>r \<in> set (users s). length (filter (\<lambda>p. user p = pk r) (profiles s)) \<le> 1"
    if r: "reachable s"
  proof
    fix r
    assume "r \<in> set (users s)"
    have ok: "users_ok (users s)" "profiles_ok s"
      using reachable_store_ok [OF r] by (simp_all add: store_ok_def)
    have key: "pk r \<noteq> None"
      using ok(1) \<open>r \<in> set (users s)\<close> unfolding users_ok_def by blast
    have "distinct (map profile_pk (profiles s))"
      using ok(2) unfolding profiles_ok_def by blast
    then have d: "distinct (map profile_pk (filter (\<lambda>p. user p = pk r) (profiles s)))"
      by (rule distinct_map_filter)
    have same: "profile_pk x = profile_pk y"
      if "x \<in> set (filter (\<lambda>p. user p = pk r) (profiles s))"
        and "y \<in> set (filter (\<lambda>p. user p = pk r) (profiles s))" for x y
    proof -
      have "x \<in> set (profiles s)" "y \<in> set (profiles s)" "user x = user y" "user x \<noteq> None"
        using that key by simp_all
      then show ?thesis using ok(2) unfolding profiles_ok_def by blast
    qed
    show "length (filter (\<lambda>p. user p = pk r) (profiles s)) \<le> 1"
      using d same by (rule at_most_one)
  qed
  show ?thesis using del none one by blast
qed

text \<open>
  Deleting Ann from the store that holds her and her profile removes both rows; deleting
  her from the store without profiles removes her row.
\<close>

theorem cascade_delete_witness:
  "pk ann = Some 1 \<and>
   fst (user_delete ann ann_profile_store) = Inr 2 \<and>
   get_user (snd (user_delete ann ann_profile_store)) 1 = None \<and>
   users (snd (user_delete ann ann_profile_store)) = [] \<and>
   profiles (snd (user_delete ann ann_profile_store)) = [] \<and>
   fst (user_delete ann ann_store) = Inr 1 \<and>
   profiles (snd (user_delete ann ann_store)) = profiles ann_store \<and>
   reachable ann_profile_store \<and> ann \<in> set (users ann_profile_store) \<and>
   length (filter (\<lambda>p. user p = pk ann) (profiles ann_profile_store)) \<le> 1"
proof -
  have k: "pk ann = Some 1" by (simp add: ann_def)
  have np: "pk ann = Some 1 \<and> (\<forall>p \<in> set (profiles ann_store). user p \<noteq> Some 1)"
    by (simp add: ann_def ann_store_def)
  have mem: "ann \<in> set (users ann_profile_store)"
    by (simp add: ann_profile_store_def)
  note del = cascade_delete [where u = ann and s = ann_profile_store and k = 1,
      THEN conjunct1, rule_format, OF k]
  note plain = cascade_delete [where u = ann and s = ann_store and k = 1,
      THEN conjunct2, THEN conjunct1, rule_format, OF np]
  note one = cascade_delete [where s = ann_profile_store,
      THEN conjunct2, THEN conjunct2, rule_format, OF ann_profile_store_reachable, rule_format, OF mem]
  have rows: "filter (\<lambda>r. pk r \<noteq> Some 1) (users ann_profile_store) = []"
    "filter (\<lambda>p. user p \<noteq> Some 1) (profiles ann_profile_store) = []"
    by (simp_all add: ann_profile_store_def ann_def ann_profile_def)
  have n: "fst (user_delete ann ann_profile_store) = Inr 2" "fst (user_delete ann ann_store) = Inr 1"
    by (simp_all add: user_delete_def Let_def ann_profile_store_def ann_store_def ann_def
        ann_profile_def)
  have 1: "get_user (snd (user_delete ann ann_profile_store)) 1 = None"
    using del by blast
  have 2: "users (snd (user_delete ann ann_profile_store)) = []"
    using del rows(1) by metis
  have 3: "profiles (snd (user_delete ann ann_profile_store)) = []"
    using del rows(2) by metis
  have 4: "profiles (snd (user_delete ann ann_store)) = profiles ann_store"
    using plain by blast
  show ?thesis
    using k mem n 1 2 3 4 one ann_profile_store_reachable by blast
qed

section \<open>The string of a profile\<close>

text \<open>
  Claim C10. A profile without owner can exist: saving a new profile without owner (or
  one that carries its \<^verbatim>\<open>created_at\<close>) succeeds on every store and writes a row without
  owner. The \<^verbatim>\<open>__str__\<close> of a profile without owner raises \<^verbatim>\<open>AttributeError\<close>, for the
  saved instance and for the stored row alike. For a profile whose owner is stored with
  an email, \<^verbatim>\<open>__str__\<close> returns that email; in every store that the operations can
  produce this is the case for each stored profile that has an owner.
\<close>

theorem userprofile_str_owner:
  "(user p = None \<longrightarrow> userprofile_str s p = Inl AttributeError) \<and>
   (user p = None \<and> (profile_pk p = None \<or> created_at p \<noteq> None) \<longrightarrow>
      (\<exists>p' s'. profile_save now p s = (Inr p', s') \<and> user p' = None \<and>
         profile_row p' \<in> set (profiles s') \<and>
         userprofile_str s' p' = Inl AttributeError \<and>
         userprofile_str s' (profile_row p') = Inl AttributeError)) \<and>
   (user p = Some k \<and> get_user s k = Some u \<and> email u = Some e \<longrightarrow>
      userprofile_str s p = Inr e) \<and>
   (reachable s \<and> p \<in> set (profiles s) \<and> user p = Some k \<longrightarrow>
      (\<exists>u e. get_user s k = Some u \<and> pk u = Some k \<and> u \<in> set (users s) \<and>
         email u = Some e \<and> userprofile_str s p = Inr e))"
proof -
  have raise: "\<And>t q. user q = None \<Longrightarrow> userprofile_str t q = Inl AttributeError"
    by (simp add: userprofile_str_def)
  have none: "userprofile_str s p = Inl AttributeError" if "user p = None"
    using that by (rule raise)
  have saved: "\<exists>p' s'. profile_save now p s = (Inr p', s') \<and> user p' = None \<and>
         profile_row p' \<in> set (profiles s') \<and>
         userprofile_str s' p' = Inl AttributeError \<and>
         userprofile_str s' (profile_row p') = Inl AttributeError"
    if a: "user p = None \<and> (profile_pk p = None \<or> created_at p \<noteq> None)"
  proof -
    obtain p' s' where "profile_save now p s = (Inr p', s')" "user p' = None"
      "profile_row p' \<in> set (profiles s')" "user (profile_row p') = None"
      using a profile_save_ownerless [of p now s] by blast
    then show ?thesis using raise by blast
  qed
  have owner: "userprofile_str s p = Inr e"
    if "user p = Some k \<and> get_user s k = Some u \<and> email u = Some e"
    using that by (simp add: userprofile_str_def user_str_def)
  have stored: "\<exists>u e. get_user s k = Some u \<and> pk u = Some k \<and> u \<in> set (users s) \<and>
      email u = Some e \<and> userprofile_str s p = Inr e"
    if a: "reachable s \<and> p \<in> set (profiles s) \<and> user p = Some k"
  proof -
    have ok: "users_ok (users s)" "profiles_ok s"
      using a reachable_store_ok [of s] by (simp_all add: store_ok_def)
    have "user p = None \<or> user p \<in> set (map pk (users s))"
      using ok(2) a unfolding profiles_ok_def by blast
    then have "Some k \<in> set (map pk (users s))" using a by simp
    then have "get_user s k \<noteq> None" by (simp only: get_user_stored)
    then obtain u where u: "get_user s k = Some u" by blast
    then have row: "u \<in> set (users s)" "pk u = Some k"
      unfolding get_user_def find_Some_iff by (auto simp: in_set_conv_nth)
    then have "email u \<noteq> None"
      using ok(1) unfolding users_ok_def by blast
    then obtain e where e: "email u = Some e" by blast
    have "userprofile_str s p = Inr e"
      using a u e by (simp add: userprofile_str_def user_str_def)
    with u row e show ?thesis by blast
  qed
  show ?thesis using none saved owner stored by blast
qed

text \<open>
  A blank profile on the store that holds Ann, and the row of Ann's profile, whose
  string is her email.
\<close>

theorem userprofile_str_owner_witness:
  "user blank_profile = None \<and> profile_pk blank_profile = None \<and>
   userprofile_str ann_store blank_profile = Inl AttributeError \<and>
   (\<exists>p' s'. profile_save 8 blank_profile ann_store = (Inr p', s') \<and> user p' = None \<and>
      profile_row p' \<in> set (profiles s') \<and>
      userprofile_str s' p' = Inl AttributeError \<and>
      userprofile_str s' (profile_row p') = Inl AttributeError) \<and>
   user ann_profile = Some 1 \<and> get_user ann_profile_store 1 = Some ann \<and>
   email ann = Some ''ann@x.org'' \<and>
   userprofile_str ann_profile_store ann_profile = Inr ''ann@x.org'' \<and>
   reachable ann_profile_store \<and> ann_profile \<in> set (profiles ann_profile_store) \<and>
   (\<exists>u e. get_user ann_profile_store 1 = Some u \<and> pk u = Some 1 \<and>
      u \<in> set (users ann_profile_store) \<and> email u = Some e \<and>
      userprofile_str ann_profile_store ann_profile = Inr e)"
proof -
  have n: "user blank_profile = None" and k: "profile_pk blank_profile = None"
    by (simp_all add: blank_profile_def)
  have nk: "user blank_profile = None \<and>
      (profile_pk blank_profile = None \<or> created_at blank_profile \<noteq> None)"
    using n k by simp
  have o: "user ann_profile = Some 1 \<and> get_user ann_profile_store 1 = Some ann \<and>
      email ann = Some ''ann@x.org''"
    by (simp add: ann_profile_def blank_profile_def get_user_def ann_profile_store_def ann_def)
  have r: "reachable ann_profile_store \<and> ann_profile \<in> set (profiles ann_profile_store) \<and>
      user ann_profile = Some 1"
    using ann_profile_store_reachable o by (simp add: ann_profile_store_def)
  note ownerless = userprofile_str_owner [where p = blank_profile and s = ann_store,
      THEN conjunct1, rule_format, OF n]
  note saved = userprofile_str_owner [where p = blank_profile and s = ann_store and now = 8,
      THEN conjunct2, THEN conjunct1, rule_format, OF nk]
  note owned = userprofile_str_owner [where p = ann_profile and s = ann_profile_store,
      THEN conjunct2, THEN conjunct2, THEN conjunct1, rule_format, OF o]
  note stored = userprofile_str_owner [where p = ann_profile and s = ann_profile_store,
      THEN conjunct2, THEN conjunct2, THEN conjunct2, rule_format, OF r]
  show ?thesis using n k o r ownerless saved owned stored by blast
qed

end
